theory Spec2Isabelle
  imports Complex_Main "HOL-Library.Char_ord" "HOL-Library.List_Lexorder" "HOL-Library.Multiset"
begin

section \<open>Strings\<close>

text \<open>
  Python's \<^verbatim>\<open>pattern in path\<close> on strings: \<^verbatim>\<open>pattern\<close> occurs in \<^verbatim>\<open>path\<close>
  as a contiguous run of characters. \<open>startswith\<close> is \<^verbatim>\<open>str.startswith\<close>.
\<close>

fun startswith :: "string \<Rightarrow> string \<Rightarrow> bool" where
  "startswith s [] = True"
| "startswith [] (p # ps) = False"
| "startswith (c # cs) (p # ps) = (c = p \<and> startswith cs ps)"

fun py_in :: "string \<Rightarrow> string \<Rightarrow> bool" where
  "py_in pat [] = (pat = [])"
| "py_in pat (c # cs) = (startswith (c # cs) pat \<or> py_in pat cs)"

text \<open>\<^verbatim>\<open>str.endswith\<close> and the slice \<^verbatim>\<open>item[:-4]\<close>.\<close>

definition endswith :: "string \<Rightarrow> string \<Rightarrow> bool" where
  "endswith s suf = startswith (rev s) (rev suf)"

definition drop_last4 :: "string \<Rightarrow> string" where
  "drop_last4 s = take (length s - 4) s"

section \<open>Configuration\<close>

text \<open>
  The dictionary \<^verbatim>\<open>CONFIG\<close>. \<open>base_dir\<close> is \<^verbatim>\<open>os.path.dirname(__file__)\<close>; the
  backup directory, the content directory and the configuration files are the entries
  \<^verbatim>\<open>backups\<close>, \<^verbatim>\<open>content\<close> and \<open>config_files\<close> (by base name) of that directory.
\<close>

record config =
  base_dir :: string
  config_files :: "string list"
  max_backups :: nat
  compress :: bool
  exclude_patterns :: "string list"

definition CONFIG :: "string \<Rightarrow> config" where
  "CONFIG base = \<lparr> base_dir = base,
     config_files = [''config.yaml'', ''netlify.toml''],
     max_backups = 30,
     compress = True,
     exclude_patterns = [''.git'', ''__pycache__'', ''*.pyc'', ''*.log'', ''backups''] \<rparr>"

section \<open>should\_exclude\<close>

fun exclude_loop :: "string list \<Rightarrow> string \<Rightarrow> bool" where
  "exclude_loop [] path = False"
| "exclude_loop (pattern # rest) path =
     (if py_in pattern path then True else exclude_loop rest path)"

definition should_exclude :: "config \<Rightarrow> string \<Rightarrow> bool" where
  "should_exclude cfg path = exclude_loop (exclude_patterns cfg) path"

section \<open>The file system\<close>

text \<open>
  The values \<^verbatim>\<open>json.load\<close> returns. A number is a Python \<^verbatim>\<open>int\<close> or \<^verbatim>\<open>float\<close>;
  the parser also accepts \<^verbatim>\<open>NaN\<close>, \<^verbatim>\<open>Infinity\<close> and \<^verbatim>\<open>-Infinity\<close>. An object is
  a dictionary, each key listed once.
\<close>

datatype pyfloat = Finite real | PosInf | NegInf | NaN

datatype jv =
    JNull
  | JBool bool
  | JNum pyfloat
  | JStr string
  | JArr "jv list"
  | JObj "(string \<times> jv) list"

text \<open>
  The dictionary \<^verbatim>\<open>metadata\<close> that \<^verbatim>\<open>create_backup\<close> builds (\<^verbatim>\<open>time.time()\<close> is a
  finite float), and the document \<^verbatim>\<open>json.dump\<close> writes for it.
\<close>

record metadata =
  name :: string
  timestamp :: real
  datetime :: string
  description :: string
  content_size :: nat
  file_count :: nat

definition dump_metadata :: "metadata \<Rightarrow> jv" where
  "dump_metadata m = JObj
     [(''name'', JStr (name m)),
      (''timestamp'', JNum (Finite (timestamp m))),
      (''datetime'', JStr (datetime m)),
      (''description'', JStr (description m)),
      (''content_size'', JNum (Finite (real (content_size m)))),
      (''file_count'', JNum (Finite (real (file_count m))))]"

text \<open>
  The contents of a regular file: plain bytes, a JSON document or a zip archive. The
  length in bytes of an encoded file is kept with it (\<^verbatim>\<open>os.path.getsize\<close>). A zip
  archive holds its members in the order they were written, each under the list of the
  components of its relative path.
\<close>

datatype fdata =
    Blob string
  | JsonFile nat jv
  | ZipArch nat "(string list \<times> fdata) list"

datatype node = File fdata | Dir "(string \<times> node) list"

fun getsize :: "fdata \<Rightarrow> nat" where
  "getsize (Blob s) = length s"
| "getsize (JsonFile n j) = n"
| "getsize (ZipArch n ms) = n"

text \<open>
  The part of the file system the program touches, all of it under \<open>base_dir\<close>:
  the content directory, the regular files directly under \<open>base_dir\<close> (the
  configuration files among them) and the backup directory, whose entries are kept in
  the order \<^verbatim>\<open>os.listdir\<close> returns them. \<open>None\<close> is a path that does not exist.
\<close>

record filesys =
  content :: "node option"
  base_files :: "string \<rightharpoonup> fdata"
  backups :: "(string \<times> node) list option"

datatype error =
    ValueError | KeyError | TypeError | FileNotFoundError | FileExistsError
  | NotADirectoryError | IsADirectoryError | BadZipFile | ShutilError

text \<open>Entries of one directory: lookup, writing (in place, or as a new last entry) and removal.\<close>

fun lookup :: "(string \<times> node) list \<Rightarrow> string \<Rightarrow> node option" where
  "lookup [] n = None"
| "lookup ((k, x) # es) n = (if k = n then Some x else lookup es n)"

fun put_entry :: "string \<Rightarrow> node \<Rightarrow> (string \<times> node) list \<Rightarrow> (string \<times> node) list" where
  "put_entry n x [] = [(n, x)]"
| "put_entry n x ((k, y) # es) = (if k = n then (n, x) # es else (k, y) # put_entry n x es)"

fun remove_entry :: "string \<Rightarrow> (string \<times> node) list \<Rightarrow> (string \<times> node) list" where
  "remove_entry n [] = []"
| "remove_entry n ((k, y) # es) = (if k = n then remove_entry n es else (k, y) # remove_entry n es)"

fun is_dir :: "node option \<Rightarrow> bool" where
  "is_dir (Some (Dir es)) = True"
| "is_dir other = False"

text \<open>\<^verbatim>\<open>os.path.join\<close> of a directory and a relative name.\<close>

definition path_join :: "string \<Rightarrow> string \<Rightarrow> string" where
  "path_join a b = (if a = [] then b else if last a = CHR ''/'' then a @ b else a @ ''/'' @ b)"

definition content_dir :: "config \<Rightarrow> string" where
  "content_dir cfg = path_join (base_dir cfg) ''content''"

section \<open>list\_backups\<close>

datatype btype = compressed | directory

text \<open>
  One element of the list \<^verbatim>\<open>backups\<close>. \<open>bpath\<close> is the entry of the backup directory
  the element was read from. The entry \<^verbatim>\<open>'size'\<close>, which is only displayed, is left out.
\<close>

record backup_info =
  bname :: string
  btype :: btype
  bpath :: string
  bmetadata :: jv

text \<open>
  Opening and parsing a metadata file: \<open>None\<close> when \<^verbatim>\<open>open\<close> or \<^verbatim>\<open>json.load\<close>
  raises (a directory, bytes that are no JSON), which the caller logs and skips.
\<close>

fun load_metadata :: "node \<Rightarrow> jv option" where
  "load_metadata (File (JsonFile n j)) = Some j"
| "load_metadata other = None"

text \<open>The body of the loop over \<^verbatim>\<open>os.listdir\<close>: the elements one item appends.\<close>

definition scan_item :: "(string \<times> node) list \<Rightarrow> string \<times> node \<Rightarrow> backup_info list" where
  "scan_item bdir it =
     (let item = fst it in
      if endswith item ''.zip'' then
        (let backup_name = drop_last4 item;
             metadata_file = backup_name @ ''_metadata.json''
         in case lookup bdir metadata_file of
              None \<Rightarrow> []
            | Some mf \<Rightarrow>
               (case load_metadata mf of
                  None \<Rightarrow> []
                | Some md \<Rightarrow> [\<lparr> bname = backup_name, btype = compressed, bpath = item, bmetadata = md \<rparr>]))
      else
        (case snd it of
           Dir sub \<Rightarrow>
             (case lookup sub ''metadata.json'' of
                None \<Rightarrow> []
              | Some mf \<Rightarrow>
                 (case load_metadata mf of
                    None \<Rightarrow> []
                  | Some md \<Rightarrow> [\<lparr> bname = item, btype = directory, bpath = item, bmetadata = md \<rparr>]))
         | File d \<Rightarrow> []))"

definition scan_backups :: "(string \<times> node) list \<Rightarrow> backup_info list" where
  "scan_backups bdir = concat (map (scan_item bdir) bdir)"

text \<open>
  The key function \<^verbatim>\<open>lambda x: x['metadata']['timestamp']\<close>: \<^verbatim>\<open>KeyError\<close> for a
  dictionary without the key, \<^verbatim>\<open>TypeError\<close> for a document that is no dictionary.
  \<^verbatim>\<open>list.sort\<close> computes the keys of all elements before it compares any.
\<close>

fun timestamp_key :: "backup_info \<Rightarrow> error + jv" where
  "timestamp_key b =
     (case bmetadata b of
        JObj kvs \<Rightarrow> (case map_of kvs ''timestamp'' of Some v \<Rightarrow> Inr v | None \<Rightarrow> Inl KeyError)
      | other \<Rightarrow> Inl TypeError)"

fun key_error :: "backup_info list \<Rightarrow> error option" where
  "key_error [] = None"
| "key_error (b # bs) = (case timestamp_key b of Inl e \<Rightarrow> Some e | Inr v \<Rightarrow> key_error bs)"

definition timestamp_of :: "backup_info \<Rightarrow> jv" where
  "timestamp_of b = (case timestamp_key b of Inr v \<Rightarrow> v | Inl e \<Rightarrow> JNull)"

text \<open>
  \<^verbatim>\<open>list.sort(key=..., reverse=True)\<close> belongs to the Python runtime, not to the program:
  it is a parameter \<open>srt\<close> of the model, given the key function and the list, and it
  returns the sorted list or the exception a comparison raised. What is assumed of it is
  \<open>py_sort_contract\<close>: the result is a permutation of the list, and when every key is a
  finite number the result is descending by key and stable, elements with equal keys in
  the order they had (\<open>sort_reverse\<close>). Nothing is assumed of the order for other keys:
  with a \<^verbatim>\<open>NaN\<close> among them it depends on the order of the list before the sort.
\<close>

type_synonym py_sort = "(backup_info \<Rightarrow> jv) \<Rightarrow> backup_info list \<Rightarrow> error + backup_info list"

definition sort_reverse :: "('a \<Rightarrow> real) \<Rightarrow> 'a list \<Rightarrow> 'a list" where
  "sort_reverse k xs = rev (sort_key k (rev xs))"

fun finite_key :: "jv \<Rightarrow> bool" where
  "finite_key (JNum (Finite r)) = True"
| "finite_key other = False"

fun real_key :: "jv \<Rightarrow> real" where
  "real_key (JNum (Finite r)) = r"
| "real_key other = 0"

definition py_sort_contract :: "py_sort \<Rightarrow> bool" where
  "py_sort_contract srt \<longleftrightarrow>
     (\<forall>k xs ys. srt k xs = Inr ys \<longrightarrow> mset ys = mset xs)
   \<and> (\<forall>k xs. (\<forall>x \<in> set xs. finite_key (k x)) \<longrightarrow>
          srt k xs = Inr (sort_reverse (\<lambda>x. real_key (k x)) xs))"

definition list_backups :: "py_sort \<Rightarrow> filesys \<Rightarrow> error + backup_info list" where
  "list_backups srt fs =
     (case backups fs of
        None \<Rightarrow> Inr []
      | Some bdir \<Rightarrow>
         (let bs = scan_backups bdir in
          case key_error bs of
            Some e \<Rightarrow> Inl e
          | None \<Rightarrow> srt timestamp_of bs))"

section \<open>cleanup\_old\_backups\<close>

text \<open>The slice \<^verbatim>\<open>backups[-k:]\<close> for \<open>k \<ge> 0\<close>.\<close>

definition last_k :: "nat \<Rightarrow> 'a list \<Rightarrow> 'a list" where
  "last_k k xs = (if k = 0 then xs else drop (length xs - k) xs)"

text \<open>
  The body of the deletion loop. An exception raised by \<^verbatim>\<open>os.remove\<close> or
  \<^verbatim>\<open>shutil.rmtree\<close> is logged and the loop goes on, with what was removed before it.
\<close>

definition delete_backup :: "(string \<times> node) list \<Rightarrow> backup_info \<Rightarrow> (string \<times> node) list" where
  "delete_backup bdir b =
     (if btype b = compressed then
        (case lookup bdir (bpath b) of
           Some (File d) \<Rightarrow>
             (let bdir1 = remove_entry (bpath b) bdir;
                  metadata_file = bname b @ ''_metadata.json''
              in case lookup bdir1 metadata_file of
                   Some (File m) \<Rightarrow> remove_entry metadata_file bdir1
                 | other \<Rightarrow> bdir1)
         | other \<Rightarrow> bdir)
      else
        (case lookup bdir (bpath b) of
           Some (Dir sub) \<Rightarrow> remove_entry (bpath b) bdir
         | other \<Rightarrow> bdir))"

definition cleanup_old_backups :: "py_sort \<Rightarrow> config \<Rightarrow> filesys \<Rightarrow> filesys" where
  "cleanup_old_backups srt cfg fs =
     (case list_backups srt fs of
        Inl e \<Rightarrow> fs
      | Inr bs \<Rightarrow>
         if length bs \<le> max_backups cfg then fs
         else
           (let backups_to_delete = length bs - max_backups cfg;
                old_backups = last_k backups_to_delete bs
            in case backups fs of
                 None \<Rightarrow> fs
               | Some bdir \<Rightarrow> fs\<lparr> backups := Some (foldl delete_backup bdir old_backups) \<rparr>))"

section \<open>Clock readings and get\_backup\_filename\<close>

text \<open>
  A reading of \<^verbatim>\<open>datetime.datetime.now()\<close>, to the second, and
  \<^verbatim>\<open>strftime('%Y%m%d_%H%M%S')\<close>: the year on four digits, the other fields on two.
\<close>

record dt =
  year :: nat
  month :: nat
  day :: nat
  hour :: nat
  minute :: nat
  second :: nat

definition valid_dt :: "dt \<Rightarrow> bool" where
  "valid_dt d \<longleftrightarrow> 1 \<le> year d \<and> year d \<le> 9999 \<and> 1 \<le> month d \<and> month d \<le> 12
     \<and> 1 \<le> day d \<and> day d \<le> 31 \<and> hour d \<le> 23 \<and> minute d \<le> 59 \<and> second d \<le> 59"

definition digit :: "nat \<Rightarrow> char" where
  "digit d = ''0123456789'' ! (d mod 10)"

definition pad2 :: "nat \<Rightarrow> string" where
  "pad2 n = [digit (n div 10), digit n]"

definition pad4 :: "nat \<Rightarrow> string" where
  "pad4 n = [digit (n div 1000), digit (n div 100), digit (n div 10), digit n]"

definition strftime :: "dt \<Rightarrow> string" where
  "strftime d = pad4 (year d) @ pad2 (month d) @ pad2 (day d) @ ''_''
                @ pad2 (hour d) @ pad2 (minute d) @ pad2 (second d)"

definition get_backup_filename :: "dt \<Rightarrow> string" where
  "get_backup_filename now = ''backup_'' @ strftime now"

text \<open>The decimal digits of an integer, as an f-string prints \<^verbatim>\<open>int(time.time())\<close>.\<close>

fun show_nat :: "nat \<Rightarrow> string" where
  "show_nat n = (if n < 10 then [digit n] else show_nat (n div 10) @ [digit n])"

definition show_int :: "int \<Rightarrow> string" where
  "show_int i = (if i < 0 then ''-'' @ show_nat (nat (- i)) else show_nat (nat i))"

section \<open>Steps that may raise\<close>

text \<open>
  A step returns the exception it raised, if any, and the state it leaves behind.
  \<open>seq\<close> runs a second step when the first one raised nothing; \<open>with_dir\<close> runs a
  step on the entries of a subdirectory.
\<close>

definition seq :: "('s \<Rightarrow> error option \<times> 's) \<Rightarrow> ('s \<Rightarrow> error option \<times> 's) \<Rightarrow> 's \<Rightarrow> error option \<times> 's" where
  "seq f g s = (case f s of (Some e, s') \<Rightarrow> (Some e, s') | (None, s') \<Rightarrow> g s')"

definition with_dir :: "string \<Rightarrow> ((string \<times> node) list \<Rightarrow> error option \<times> (string \<times> node) list)
    \<Rightarrow> (string \<times> node) list \<Rightarrow> error option \<times> (string \<times> node) list" where
  "with_dir n f es =
     (case lookup es n of
        Some (Dir sub) \<Rightarrow> (case f sub of (r, sub') \<Rightarrow> (r, put_entry n (Dir sub') es))
      | Some (File d) \<Rightarrow> (Some NotADirectoryError, es)
      | None \<Rightarrow> (Some FileNotFoundError, es))"

text \<open>\<^verbatim>\<open>open(path, 'w')\<close> followed by a write: a directory in the way raises.\<close>

definition write_file :: "string \<Rightarrow> fdata \<Rightarrow> (string \<times> node) list \<Rightarrow> error option \<times> (string \<times> node) list" where
  "write_file n d es =
     (case lookup es n of
        Some (Dir sub) \<Rightarrow> (Some IsADirectoryError, es)
      | other \<Rightarrow> (None, put_entry n (File d) es))"

text \<open>\<^verbatim>\<open>os.makedirs(path, exist_ok=True)\<close> for one more level.\<close>

definition makedirs_exist_ok :: "string \<Rightarrow> (string \<times> node) list \<Rightarrow> error option \<times> (string \<times> node) list" where
  "makedirs_exist_ok n es =
     (case lookup es n of
        None \<Rightarrow> (None, put_entry n (Dir []) es)
      | Some (Dir sub) \<Rightarrow> (None, es)
      | Some (File d) \<Rightarrow> (Some FileExistsError, es))"

section \<open>create\_backup\<close>

text \<open>
  What one call reads from outside the file system: the two clocks, and the lengths the
  zip and JSON encoders give the files they write.
\<close>

record create_env =
  c_now :: dt
  c_time :: real
  c_iso :: string
  c_zip_bytes :: nat
  c_json_bytes :: nat

definition setup_backup_dir :: "filesys \<Rightarrow> filesys" where
  "setup_backup_dir fs = (case backups fs of None \<Rightarrow> fs\<lparr> backups := Some [] \<rparr> | Some bdir \<Rightarrow> fs)"

text \<open>
  The compressed branch. The state of the loops is the list of members written to the
  archive so far and the metadata dictionary. For one directory of \<^verbatim>\<open>os.walk\<close>,
  \<open>add_files\<close> is the loop over \<^verbatim>\<open>files\<close> and \<open>walk_dirs\<close> the descent into the
  directories left in \<^verbatim>\<open>dirs\<close>; \<open>rel\<close> is the path relative to \<open>base_dir\<close>.
\<close>

type_synonym zip_state = "(string list \<times> fdata) list \<times> metadata"

definition zip_write :: "string list \<Rightarrow> fdata \<Rightarrow> zip_state \<Rightarrow> zip_state" where
  "zip_write rel_path d st =
     (case st of (members, md) \<Rightarrow>
        (members @ [(rel_path, d)],
         md\<lparr> file_count := file_count md + 1, content_size := content_size md + getsize d \<rparr>))"

fun add_files :: "config \<Rightarrow> string \<Rightarrow> string list \<Rightarrow> (string \<times> node) list \<Rightarrow> zip_state \<Rightarrow> zip_state" where
  "add_files cfg dirpath rel [] st = st"
| "add_files cfg dirpath rel ((file, Dir sub) # es) st = add_files cfg dirpath rel es st"
| "add_files cfg dirpath rel ((file, File d) # es) st =
     (if should_exclude cfg (path_join dirpath file) then add_files cfg dirpath rel es st
      else add_files cfg dirpath rel es (zip_write (rel @ [file]) d st))"

fun walk :: "config \<Rightarrow> string \<Rightarrow> string list \<Rightarrow> (string \<times> node) list \<Rightarrow> zip_state \<Rightarrow> zip_state"
and walk_dirs :: "config \<Rightarrow> string \<Rightarrow> string list \<Rightarrow> (string \<times> node) list \<Rightarrow> zip_state \<Rightarrow> zip_state" where
  "walk cfg dirpath rel es st = walk_dirs cfg dirpath rel es (add_files cfg dirpath rel es st)"
| "walk_dirs cfg dirpath rel [] st = st"
| "walk_dirs cfg dirpath rel ((d, File x) # es) st = walk_dirs cfg dirpath rel es st"
| "walk_dirs cfg dirpath rel ((d, Dir sub) # es) st =
     (if should_exclude cfg (path_join dirpath d) then walk_dirs cfg dirpath rel es st
      else walk_dirs cfg dirpath rel es (walk cfg (path_join dirpath d) (rel @ [d]) sub st))"

text \<open>\<^verbatim>\<open>os.walk\<close> of a path that is no directory yields nothing.\<close>

definition walk_content :: "config \<Rightarrow> node option \<Rightarrow> zip_state \<Rightarrow> zip_state" where
  "walk_content cfg c st =
     (case c of Some (Dir es) \<Rightarrow> walk cfg (content_dir cfg) [''content''] es st | other \<Rightarrow> st)"

fun add_config_files :: "(string \<rightharpoonup> fdata) \<Rightarrow> string list \<Rightarrow> zip_state \<Rightarrow> zip_state" where
  "add_config_files files [] st = st"
| "add_config_files files (config_file # rest) st =
     (case files config_file of
        Some d \<Rightarrow> add_config_files files rest (zip_write [config_file] d st)
      | None \<Rightarrow> add_config_files files rest st)"

text \<open>
  The directory branch: \<^verbatim>\<open>shutil.copytree\<close> of the content directory to
  \<^verbatim>\<open>backup_path/content\<close>, which must not exist; \<^verbatim>\<open>shutil.copy2\<close> of each
  configuration file into \<^verbatim>\<open>backup_path/config\<close>.
\<close>

definition copytree_content :: "node option \<Rightarrow> string \<Rightarrow> (string \<times> node) list \<Rightarrow> error option \<times> (string \<times> node) list" where
  "copytree_content c backup_name bdir =
     (case c of
        None \<Rightarrow> (Some FileNotFoundError, bdir)
      | Some (File d) \<Rightarrow> (Some NotADirectoryError, bdir)
      | Some (Dir es) \<Rightarrow>
         (case lookup bdir backup_name of
            None \<Rightarrow> (None, put_entry backup_name (Dir [(''content'', Dir es)]) bdir)
          | Some (File d) \<Rightarrow> (Some NotADirectoryError, bdir)
          | Some (Dir sub) \<Rightarrow>
             (case lookup sub ''content'' of
                None \<Rightarrow> (None, put_entry backup_name (Dir (put_entry ''content'' (Dir es) sub)) bdir)
              | Some x \<Rightarrow> (Some FileExistsError, bdir))))"

fun copy_config_files :: "(string \<rightharpoonup> fdata) \<Rightarrow> string list \<Rightarrow> (string \<times> node) list \<Rightarrow> error option \<times> (string \<times> node) list" where
  "copy_config_files files [] cdir = (None, cdir)"
| "copy_config_files files (config_file # rest) cdir =
     (case files config_file of
        Some d \<Rightarrow> seq (write_file config_file d) (copy_config_files files rest) cdir
      | None \<Rightarrow> copy_config_files files rest cdir)"

definition create_backup :: "py_sort \<Rightarrow> config \<Rightarrow> create_env \<Rightarrow> string \<Rightarrow> filesys \<Rightarrow> (error + string) \<times> filesys" where
  "create_backup srt cfg env descr fs =
     (let fs1 = setup_backup_dir fs;
          bdir = (case backups fs1 of Some b \<Rightarrow> b | None \<Rightarrow> []);
          backup_name = get_backup_filename (c_now env);
          metadata = \<lparr> name = backup_name, timestamp = c_time env, datetime = c_iso env,
                       description = descr, content_size = 0, file_count = 0 \<rparr>;
          written =
            (if compress cfg then
               (case add_config_files (base_files fs1) (config_files cfg)
                       (walk_content cfg (content fs1) ([], metadata)) of
                  (members, metadata') \<Rightarrow>
                    seq (write_file (backup_name @ ''.zip'') (ZipArch (c_zip_bytes env) members))
                        (write_file (backup_name @ ''_metadata.json'')
                           (JsonFile (c_json_bytes env) (dump_metadata metadata')))
                        bdir)
             else
               seq (copytree_content (content fs1) backup_name)
                   (with_dir backup_name
                      (seq (makedirs_exist_ok ''config'')
                      (seq (with_dir ''config''
                              (copy_config_files (base_files fs1) (config_files cfg)))
                           (write_file ''metadata.json''
                              (JsonFile (c_json_bytes env) (dump_metadata metadata))))))
                   bdir)
      in case written of
           (Some e, bdir') \<Rightarrow> (Inl e, fs1\<lparr> backups := Some bdir' \<rparr>)
         | (None, bdir') \<Rightarrow>
             (Inr backup_name, cleanup_old_backups srt cfg (fs1\<lparr> backups := Some bdir' \<rparr>)))"

section \<open>restore\_backup\<close>

text \<open>What one call reads from outside the file system: the answer typed at the prompt and the two clocks.\<close>

record restore_env =
  r_confirm :: string
  r_time :: real
  r_now :: dt

definition lower_char :: "char \<Rightarrow> char" where
  "lower_char c =
     (case map_of (zip ''ABCDEFGHIJKLMNOPQRSTUVWXYZ'' ''abcdefghijklmnopqrstuvwxyz'') c of
        Some l \<Rightarrow> l | None \<Rightarrow> c)"

definition py_lower :: "string \<Rightarrow> string" where
  "py_lower s = map lower_char s"

text \<open>
  \<^verbatim>\<open>ZipFile.extractall\<close> into a directory: each member is written under its path, the
  directories above it made as needed; a file where a directory is needed, or a directory
  where the member goes, raises.
\<close>

fun extract_member :: "string list \<Rightarrow> fdata \<Rightarrow> (string \<times> node) list \<Rightarrow> error option \<times> (string \<times> node) list" where
  "extract_member [] d es = (Some IsADirectoryError, es)"
| "extract_member [n] d es = write_file n d es"
| "extract_member (n # p # ps) d es =
     (case lookup es n of
        Some (File x) \<Rightarrow> (Some NotADirectoryError, es)
      | Some (Dir sub) \<Rightarrow>
          (case extract_member (p # ps) d sub of (r, sub') \<Rightarrow> (r, put_entry n (Dir sub') es))
      | None \<Rightarrow>
          (case extract_member (p # ps) d [] of (r, sub') \<Rightarrow> (r, put_entry n (Dir sub') es)))"

fun extractall :: "(string list \<times> fdata) list \<Rightarrow> (string \<times> node) list \<Rightarrow> error option \<times> (string \<times> node) list" where
  "extractall [] es = (None, es)"
| "extractall ((p, d) # ms) es = seq (extract_member p d) (extractall ms) es"

text \<open>
  \<^verbatim>\<open>shutil.copytree(src, dst, dirs_exist_ok=True)\<close> into an existing directory.
  \<^verbatim>\<open>copy2\<close> onto an existing directory writes the file inside it. The errors of the
  entries are collected and raised together at the end; \<open>True\<close> in the result says that
  there were some.
\<close>

definition copy2_into :: "string \<Rightarrow> fdata \<Rightarrow> (string \<times> node) list \<Rightarrow> bool \<times> (string \<times> node) list" where
  "copy2_into n d dst =
     (case lookup dst n of
        Some (Dir sub) \<Rightarrow>
          (case lookup sub n of
             Some (Dir x) \<Rightarrow> (True, dst)
           | other \<Rightarrow> (False, put_entry n (Dir (put_entry n (File d) sub)) dst))
      | other \<Rightarrow> (False, put_entry n (File d) dst))"

fun copytree_merge :: "(string \<times> node) list \<Rightarrow> (string \<times> node) list \<Rightarrow> bool \<times> (string \<times> node) list" where
  "copytree_merge [] dst = (False, dst)"
| "copytree_merge ((n, File d) # src) dst =
     (case copy2_into n d dst of (err, dst') \<Rightarrow>
        (case copytree_merge src dst' of (err', dst'') \<Rightarrow> (err \<or> err', dst'')))"
| "copytree_merge ((n, Dir sub) # src) dst =
     (case lookup dst n of
        Some (File x) \<Rightarrow>
          (case copytree_merge src dst of (err', dst'') \<Rightarrow> (True, dst''))
      | Some (Dir old) \<Rightarrow>
          (case copytree_merge sub old of (err, new) \<Rightarrow>
             (case copytree_merge src (put_entry n (Dir new) dst) of
                (err', dst'') \<Rightarrow> (err \<or> err', dst'')))
      | None \<Rightarrow>
          (case copytree_merge sub [] of (err, new) \<Rightarrow>
             (case copytree_merge src (put_entry n (Dir new) dst) of
                (err', dst'') \<Rightarrow> (err \<or> err', dst''))))"

definition copytree_exist_ok :: "(string \<times> node) list \<Rightarrow> (string \<times> node) list \<Rightarrow> error option \<times> (string \<times> node) list" where
  "copytree_exist_ok src dst =
     (case copytree_merge src dst of (err, dst') \<Rightarrow> (if err then Some ShutilError else None, dst'))"

text \<open>
  Staging: the archive is unpacked, or the backup directory copied, into the temporary
  directory. Copying a directory onto itself raises for each of its files.
\<close>

definition stage :: "backup_info \<Rightarrow> string \<Rightarrow> (string \<times> node) list \<Rightarrow> error option \<times> (string \<times> node) list" where
  "stage backup_info temp bdir =
     (if btype backup_info = compressed then
        (case lookup bdir (bpath backup_info) of
           Some (File (ZipArch n members)) \<Rightarrow> with_dir temp (extractall members) bdir
         | Some (File other) \<Rightarrow> (Some BadZipFile, bdir)
         | Some (Dir sub) \<Rightarrow> (Some IsADirectoryError, bdir)
         | None \<Rightarrow> (Some FileNotFoundError, bdir))
      else
        (case lookup bdir (bpath backup_info) of
           Some (Dir src) \<Rightarrow>
             (if bpath backup_info = temp then (Some ShutilError, bdir)
              else with_dir temp (copytree_exist_ok src) bdir)
         | Some (File d) \<Rightarrow> (Some NotADirectoryError, bdir)
         | None \<Rightarrow> (Some FileNotFoundError, bdir)))"

text \<open>The snapshot of the current content, a plain \<^verbatim>\<open>shutil.copytree\<close> to a new directory.\<close>

definition snapshot_current :: "string \<Rightarrow> filesys \<Rightarrow> error option \<times> filesys" where
  "snapshot_current current_backup_name fs =
     (case content fs of
        None \<Rightarrow> (None, fs)
      | Some (File d) \<Rightarrow> (Some NotADirectoryError, fs)
      | Some (Dir es) \<Rightarrow>
         (case backups fs of
            None \<Rightarrow> (Some FileNotFoundError, fs)
          | Some bdir \<Rightarrow>
             (case lookup bdir current_backup_name of
                Some x \<Rightarrow> (Some FileExistsError, fs)
              | None \<Rightarrow> (None, fs\<lparr> backups := Some (put_entry current_backup_name (Dir es) bdir) \<rparr>))))"

text \<open>The content directory is replaced by \<^verbatim>\<open>temp_dir/content\<close>, when that exists.\<close>

definition restore_content :: "(string \<times> node) list \<Rightarrow> filesys \<Rightarrow> error option \<times> filesys" where
  "restore_content staged fs =
     (case lookup staged ''content'' of
        None \<Rightarrow> (None, fs)
      | Some c \<Rightarrow>
         seq (\<lambda>fs. case content fs of
                      None \<Rightarrow> (None, fs)
                    | Some (Dir es) \<Rightarrow> (None, fs\<lparr> content := None \<rparr>)
                    | Some (File d) \<Rightarrow> (Some NotADirectoryError, fs))
             (\<lambda>fs. case c of
                      Dir sub \<Rightarrow> (None, fs\<lparr> content := Some (Dir sub) \<rparr>)
                    | File d \<Rightarrow> (Some NotADirectoryError, fs))
             fs)"

text \<open>Each configuration file found in \<^verbatim>\<open>temp_dir/config\<close> is copied over the current one.\<close>

fun restore_config_loop :: "(string \<times> node) list \<Rightarrow> string list \<Rightarrow> filesys \<Rightarrow> error option \<times> filesys" where
  "restore_config_loop cdir [] fs = (None, fs)"
| "restore_config_loop cdir (config_file # rest) fs =
     (case lookup cdir config_file of
        None \<Rightarrow> restore_config_loop cdir rest fs
      | Some (File d) \<Rightarrow>
          restore_config_loop cdir rest (fs\<lparr> base_files := (base_files fs)(config_file \<mapsto> d) \<rparr>)
      | Some (Dir sub) \<Rightarrow> (Some IsADirectoryError, fs))"

definition restore_config :: "config \<Rightarrow> (string \<times> node) list \<Rightarrow> filesys \<Rightarrow> error option \<times> filesys" where
  "restore_config cfg staged fs =
     (case lookup staged ''config'' of
        Some (Dir cdir) \<Rightarrow> restore_config_loop cdir (config_files cfg) fs
      | other \<Rightarrow> (None, fs))"

text \<open>The body of the inner \<^verbatim>\<open>try\<close>, run once the temporary directory exists.\<close>

definition staged_entries :: "string \<Rightarrow> filesys \<Rightarrow> (string \<times> node) list" where
  "staged_entries temp fs =
     (case backups fs of
        Some bdir \<Rightarrow> (case lookup bdir temp of Some (Dir es) \<Rightarrow> es | other \<Rightarrow> [])
      | None \<Rightarrow> [])"

definition restore_steps :: "config \<Rightarrow> restore_env \<Rightarrow> backup_info \<Rightarrow> string \<Rightarrow> filesys \<Rightarrow> error option \<times> filesys" where
  "restore_steps cfg env backup_info temp =
     seq (\<lambda>fs. case backups fs of
                  None \<Rightarrow> (Some FileNotFoundError, fs)
                | Some bdir \<Rightarrow>
                    (case stage backup_info temp bdir of
                       (r, bdir') \<Rightarrow> (r, fs\<lparr> backups := Some bdir' \<rparr>)))
    (seq (snapshot_current (''pre_restore_'' @ get_backup_filename (r_now env)))
    (seq (\<lambda>fs. restore_content (staged_entries temp fs) fs)
         (\<lambda>fs. restore_config cfg (staged_entries temp fs) fs)))"

text \<open>
  The \<^verbatim>\<open>finally\<close> clause: \<^verbatim>\<open>shutil.rmtree\<close> of the temporary directory when the path
  exists; it raises for a path that is no directory.
\<close>

definition remove_temp :: "string \<Rightarrow> filesys \<Rightarrow> error option \<times> filesys" where
  "remove_temp temp fs =
     (case backups fs of
        None \<Rightarrow> (None, fs)
      | Some bdir \<Rightarrow>
         (case lookup bdir temp of
            None \<Rightarrow> (None, fs)
          | Some (Dir es) \<Rightarrow> (None, fs\<lparr> backups := Some (remove_entry temp bdir) \<rparr>)
          | Some (File d) \<Rightarrow> (Some NotADirectoryError, fs)))"

text \<open>\<^verbatim>\<open>int(time.time())\<close> rounds towards zero.\<close>

definition py_int :: "real \<Rightarrow> int" where
  "py_int t = (if 0 \<le> t then \<lfloor>t\<rfloor> else \<lceil>t\<rceil>)"

definition temp_name :: "restore_env \<Rightarrow> string" where
  "temp_name env = ''temp_restore_'' @ show_int (py_int (r_time env))"

text \<open>
  \<open>restore_backup\<close> returns the exception it raises or the value it returns. An exception
  raised in the \<^verbatim>\<open>finally\<close> clause takes the place of the outcome of the \<^verbatim>\<open>try\<close> body.
\<close>

definition restore_backup :: "py_sort \<Rightarrow> config \<Rightarrow> restore_env \<Rightarrow> string \<Rightarrow> filesys \<Rightarrow> (error + bool) \<times> filesys" where
  "restore_backup srt cfg env backup_name fs =
     (case list_backups srt fs of
        Inl e \<Rightarrow> (Inl e, fs)
      | Inr bs \<Rightarrow>
         (case find (\<lambda>b. bname b = backup_name) bs of
            None \<Rightarrow> (Inl ValueError, fs)
          | Some backup_info \<Rightarrow>
             if py_lower (r_confirm env) \<noteq> ''y'' then (Inr False, fs)
             else
               (let temp = temp_name env;
                    bdir = (case backups fs of Some b \<Rightarrow> b | None \<Rightarrow> [])
                in case makedirs_exist_ok temp bdir of
                     (Some e, bdir') \<Rightarrow> (Inl e, fs)
                   | (None, bdir') \<Rightarrow>
                       (case restore_steps cfg env backup_info temp (fs\<lparr> backups := Some bdir' \<rparr>) of
                          (r, fs') \<Rightarrow>
                            (case remove_temp temp fs' of
                               (Some e, fs'') \<Rightarrow> (Inl e, fs'')
                             | (None, fs'') \<Rightarrow>
                                 (case r of Some e \<Rightarrow> Inl e | None \<Rightarrow> Inr True, fs''))))))"

section \<open>Notions used in the statements\<close>

text \<open>
  The metadata file beside a compressed backup, the entries of the backup directory that
  \<open>delete_backup\<close> may remove for one element of the catalogue, and those it does remove.
  A directory never lists a name twice (\<open>wf_backup_dir\<close>).
\<close>

definition sidecar :: "backup_info \<Rightarrow> string" where
  "sidecar b = bname b @ ''_metadata.json''"

definition touched :: "backup_info \<Rightarrow> string set" where
  "touched b = (if btype b = compressed then {bpath b, sidecar b} else {bpath b})"

definition removed_names :: "(string \<times> node) list \<Rightarrow> backup_info \<Rightarrow> string set" where
  "removed_names bdir b =
     (if btype b = compressed then
        (case lookup bdir (bpath b) of
           Some (File d) \<Rightarrow>
             insert (bpath b)
               (case lookup bdir (sidecar b) of Some (File m) \<Rightarrow> {sidecar b} | other \<Rightarrow> {})
         | other \<Rightarrow> {})
      else
        (case lookup bdir (bpath b) of Some (Dir sub) \<Rightarrow> {bpath b} | other \<Rightarrow> {}))"

definition finite_timestamps :: "backup_info list \<Rightarrow> bool" where
  "finite_timestamps bs \<longleftrightarrow> (\<forall>b \<in> set bs. \<exists>r. timestamp_key b = Inr (JNum (Finite r)))"

definition ts_real :: "backup_info \<Rightarrow> real" where
  "ts_real b = real_key (timestamp_of b)"

definition finite_catalog :: "filesys \<Rightarrow> bool" where
  "finite_catalog fs =
     (case backups fs of None \<Rightarrow> True | Some bdir \<Rightarrow> finite_timestamps (scan_backups bdir))"

definition wf_backup_dir :: "filesys \<Rightarrow> bool" where
  "wf_backup_dir fs = (case backups fs of None \<Rightarrow> True | Some bdir \<Rightarrow> distinct (map fst bdir))"

section \<open>A sort function for the examples\<close>

text \<open>
  The examples need one sort function. \<open>ex_sort\<close> is \<^verbatim>\<open>list.sort(key=..., reverse=True)\<close>
  on keys that are JSON numbers or booleans, for a list of fewer than 64 elements, as CPython 3.8 to
  3.12 runs it (\<^verbatim>\<open>listobject.c\<close>): the list is reversed, the run at its head is found by
  \<^verbatim>\<open>count_run\<close> and reversed when it descends strictly, each further element is put in
  place by \<^verbatim>\<open>binarysort\<close>, and the list is reversed again. Floats compare as C doubles
  do, so every comparison with \<^verbatim>\<open>NaN\<close> is false. On keys that are all finite the
  result is the stable descending sort, which the definition takes directly. On a key that
  is no number \<open>ex_sort\<close> raises; the examples have none.
\<close>

fun flt_lt :: "pyfloat \<Rightarrow> pyfloat \<Rightarrow> bool" where
  "flt_lt (Finite a) (Finite b) = (a < b)"
| "flt_lt (Finite a) PosInf = True"
| "flt_lt NegInf (Finite b) = True"
| "flt_lt NegInf PosInf = True"
| "flt_lt x y = False"

fun run_asc :: "('a \<Rightarrow> pyfloat) \<Rightarrow> 'a \<Rightarrow> 'a list \<Rightarrow> nat" where
  "run_asc k prev [] = 0"
| "run_asc k prev (x # xs) = (if flt_lt (k x) (k prev) then 0 else Suc (run_asc k x xs))"

fun run_desc :: "('a \<Rightarrow> pyfloat) \<Rightarrow> 'a \<Rightarrow> 'a list \<Rightarrow> nat" where
  "run_desc k prev [] = 0"
| "run_desc k prev (x # xs) = (if flt_lt (k x) (k prev) then Suc (run_desc k x xs) else 0)"

fun count_run :: "('a \<Rightarrow> pyfloat) \<Rightarrow> 'a list \<Rightarrow> nat \<times> bool" where
  "count_run k [] = (0, False)"
| "count_run k [x] = (1, False)"
| "count_run k (x # y # ys) =
     (if flt_lt (k y) (k x) then (2 + run_desc k y ys, True) else (2 + run_asc k y ys, False))"

function bsearch :: "('a \<Rightarrow> pyfloat) \<Rightarrow> 'a \<Rightarrow> 'a list \<Rightarrow> nat \<Rightarrow> nat \<Rightarrow> nat" where
  "bsearch k pivot a l r =
     (if l < r then
        (let p = l + (r - l) div 2 in
         if flt_lt (k pivot) (k (a ! p)) then bsearch k pivot a l p else bsearch k pivot a (p + 1) r)
      else l)"
  by pat_completeness auto
termination
  by (relation "measure (\<lambda>(k, pivot, a, l, r). r - l)") auto

declare bsearch.simps [simp del]

definition binsert :: "('a \<Rightarrow> pyfloat) \<Rightarrow> 'a list \<Rightarrow> 'a \<Rightarrow> 'a list" where
  "binsert k a pivot = (let l = bsearch k pivot a 0 (length a) in take l a @ [pivot] @ drop l a)"

definition sort_small :: "('a \<Rightarrow> pyfloat) \<Rightarrow> 'a list \<Rightarrow> 'a list" where
  "sort_small k xs =
     (case count_run k xs of (n, descending) \<Rightarrow>
        foldl (binsert k) (if descending then rev (take n xs) else take n xs) (drop n xs))"

fun number_key :: "jv \<Rightarrow> bool" where
  "number_key (JNum f) = True"
| "number_key (JBool b) = True"
| "number_key other = False"

fun float_key :: "jv \<Rightarrow> pyfloat" where
  "float_key (JNum f) = f"
| "float_key (JBool b) = Finite (if b then 1 else 0)"
| "float_key other = NaN"

definition ex_sort :: py_sort where
  "ex_sort k xs =
     (if list_all (\<lambda>x. finite_key (k x)) xs then Inr (sort_reverse (\<lambda>x. real_key (k x)) xs)
      else if list_all (\<lambda>x. number_key (k x)) xs
      then Inr (rev (sort_small (\<lambda>x. float_key (k x)) (rev xs)))
      else Inl TypeError)"

section \<open>An example state\<close>

text \<open>
  A backup directory with two compressed backups, a directory backup, an archive without
  metadata and the snapshot left by an earlier restore; the limit is two backups.
\<close>

definition ex_meta :: "string \<Rightarrow> real \<Rightarrow> jv" where
  "ex_meta n t = dump_metadata \<lparr> name = n, timestamp = t, datetime = ''2024-01-01T00:00:00'',
     description = ''x'', content_size = 5, file_count = 1 \<rparr>"

definition ex_backups :: "(string \<times> node) list" where
  "ex_backups =
    [(''a.zip'', File (ZipArch 9 [([''content'', ''ch1.md''], Blob ''hello'')])),
     (''a_metadata.json'', File (JsonFile 7 (ex_meta ''a'' 1))),
     (''b'', Dir [(''metadata.json'', File (JsonFile 7 (ex_meta ''b'' 3)))]),
     (''c.zip'', File (ZipArch 9 [])),
     (''c_metadata.json'', File (JsonFile 7 (ex_meta ''c'' 2))),
     (''orphan.zip'', File (ZipArch 9 [])),
     (''pre_restore_backup_20240101_000000'', Dir [(''ch1.md'', File (Blob ''hello''))])]"

definition ex_fs :: filesys where
  "ex_fs = \<lparr> content = Some (Dir [(''ch1.md'', File (Blob ''hello''))]),
             base_files = [''config.yaml'' \<mapsto> Blob ''k''],
             backups = Some ex_backups \<rparr>"

definition ex_cfg :: config where
  "ex_cfg = (CONFIG ''/srv/site'')\<lparr> max_backups := 2 \<rparr>"

text \<open>
  A backup directory with a \<^verbatim>\<open>NaN\<close> timestamp, as \<^verbatim>\<open>json.load\<close> accepts it, and
  with a directory whose name ends in \<^verbatim>\<open>.zip\<close>, which \<^verbatim>\<open>os.remove\<close> refuses; the limit
  is one backup.
\<close>

definition nan_meta :: "string \<Rightarrow> pyfloat \<Rightarrow> jv" where
  "nan_meta n t = JObj
     [(''name'', JStr n), (''timestamp'', JNum t), (''datetime'', JStr ''2024-01-01T00:00:00''),
      (''description'', JStr ''x''), (''content_size'', JNum (Finite 5)), (''file_count'', JNum (Finite 1))]"

definition nan_backups :: "(string \<times> node) list" where
  "nan_backups =
    [(''a.zip'', File (ZipArch 9 [])),
     (''a_metadata.json'', File (JsonFile 7 (nan_meta ''a'' (Finite 1)))),
     (''b.zip'', File (ZipArch 9 [])),
     (''b_metadata.json'', File (JsonFile 7 (nan_meta ''b'' NaN))),
     (''c.zip'', Dir []),
     (''c_metadata.json'', File (JsonFile 7 (nan_meta ''c'' (Finite 2))))]"

definition nan_fs :: filesys where
  "nan_fs = \<lparr> content = None, base_files = Map.empty, backups = Some nan_backups \<rparr>"

definition nan_cfg :: config where
  "nan_cfg = (CONFIG ''/srv/site'')\<lparr> max_backups := 1 \<rparr>"




definition ok_renv :: restore_env where
  "ok_renv = \<lparr> r_confirm = ''y'', r_time = 1704067201,
               r_now = \<lparr> year = 2024, month = 1, day = 1, hour = 0, minute = 0, second = 1 \<rparr> \<rparr>"

section \<open>Properties of the path filter\<close>

lemma startswith_iff: "startswith s p \<longleftrightarrow> (\<exists>r. s = p @ r)"
  by (induction s p rule: startswith.induct) auto

lemma py_in_iff: "py_in pat s \<longleftrightarrow> (\<exists>a b. s = a @ pat @ b)"
proof (induction s)
  case Nil
  then show ?case by auto
next
  case (Cons c cs)
  show ?case
  proof
    assume "py_in pat (c # cs)"
    then consider "startswith (c # cs) pat" | "py_in pat cs" by auto
    then show "\<exists>a b. c # cs = a @ pat @ b"
    proof cases
      case 1
      then obtain r where "c # cs = pat @ r" by (auto simp: startswith_iff)
      then have "c # cs = [] @ pat @ r" by simp
      then show ?thesis by blast
    next
      case 2
      then obtain a b where "cs = a @ pat @ b" using Cons.IH by auto
      then have "c # cs = (c # a) @ pat @ b" by simp
      then show ?thesis by blast
    qed
  next
    assume "\<exists>a b. c # cs = a @ pat @ b"
    then obtain a b where ab: "c # cs = a @ pat @ b" by auto
    show "py_in pat (c # cs)"
    proof (cases a)
      case Nil
      with ab have "startswith (c # cs) pat" by (auto simp: startswith_iff)
      then show ?thesis by simp
    next
      case (Cons x a')
      with ab have "cs = a' @ pat @ b" by simp
      then have "py_in pat cs" using Cons.IH by auto
      then show ?thesis by simp
    qed
  qed
qed

lemma exclude_loop_iff: "exclude_loop pats p \<longleftrightarrow> (\<exists>t \<in> set pats. py_in t p)"
  by (induction pats) auto

text \<open>
  C9. A path is excluded exactly when some configured exclusion token occurs in it as a
  contiguous substring: every path containing a token is excluded, and a path containing
  no token is not.
\<close>

theorem should_exclude_substring:
  "should_exclude cfg p \<longleftrightarrow> (\<exists>t \<in> set (exclude_patterns cfg). \<exists>a b. p = a @ t @ b)"
  by (simp add: should_exclude_def exclude_loop_iff py_in_iff)

theorem should_exclude_substring_witness:
  "should_exclude (CONFIG ''/srv/site'') ''/srv/site/content/.git/HEAD''
   \<and> (\<exists>t \<in> set (exclude_patterns (CONFIG ''/srv/site'')).
         \<exists>a b. ''/srv/site/content/.git/HEAD'' = a @ t @ b)
   \<and> \<not> should_exclude (CONFIG ''/srv/site'') ''/srv/site/content/ch1.md''"
proof -
  have e: "should_exclude (CONFIG ''/srv/site'') ''/srv/site/content/.git/HEAD''"
    by (simp add: should_exclude_def CONFIG_def)
  have n: "\<not> should_exclude (CONFIG ''/srv/site'') ''/srv/site/content/ch1.md''"
    by (simp add: should_exclude_def CONFIG_def)
  from e n should_exclude_substring [of "CONFIG ''/srv/site''" "''/srv/site/content/.git/HEAD''"]
  show ?thesis by blast
qed

section \<open>Scanning and trimming the backup directory\<close>

lemma lookup_map_of: "lookup es = map_of es"
proof
  fix n show "lookup es n = map_of es n" by (induction es) auto
qed

lemma remove_entry_filter: "remove_entry n es = filter (\<lambda>e. fst e \<noteq> n) es"
  by (induction es) auto

lemma lookup_filter_names:
  "lookup (filter (\<lambda>e. fst e \<notin> R) es) n = (if n \<in> R then None else lookup es n)"
  by (induction es) auto

lemma lookup_in_set: "lookup es n = Some x \<Longrightarrow> (n, x) \<in> set es"
  by (induction es) (auto split: if_splits)

lemma lookup_distinct: "distinct (map fst es) \<Longrightarrow> (n, x) \<in> set es \<Longrightarrow> lookup es n = Some x"
  by (simp add: lookup_map_of)

lemma endswith_iff: "endswith s suf \<longleftrightarrow> (\<exists>r. s = r @ suf)"
proof -
  have "endswith s suf \<longleftrightarrow> (\<exists>r. rev s = rev suf @ r)"
    by (simp add: endswith_def startswith_iff)
  also have "\<dots> \<longleftrightarrow> (\<exists>r. s = r @ suf)"
  proof
    assume "\<exists>r. rev s = rev suf @ r"
    then obtain r where "rev s = rev suf @ r" by auto
    then have "rev (rev s) = rev (rev suf @ r)" by simp
    then have "s = rev r @ suf" by simp
    then show "\<exists>r. s = r @ suf" by blast
  next
    assume "\<exists>r. s = r @ suf"
    then obtain r where "s = r @ suf" by auto
    then have "rev s = rev suf @ rev r" by simp
    then show "\<exists>r. rev s = rev suf @ r" by blast
  qed
  finally show ?thesis .
qed

lemma zip_name_split: "endswith s ''.zip'' \<Longrightarrow> s = drop_last4 s @ ''.zip''"
  by (auto simp: endswith_iff drop_last4_def)

lemma sidecar_not_zip: "\<not> endswith (x @ ''_metadata.json'') ''.zip''"
  by (auto simp: endswith_iff)

lemma delete_backup_filter:
  "delete_backup bdir b = filter (\<lambda>e. fst e \<notin> removed_names bdir b) bdir"
proof -
  have eq: "filter (\<lambda>e. fst e \<noteq> m) (filter (\<lambda>e. fst e \<noteq> n) bdir)
        = filter (\<lambda>e. fst e \<notin> {n, m}) bdir" for n m
    by (induction bdir) auto
  have l1: "lookup (filter (\<lambda>e. fst e \<noteq> n) bdir) m = (if m = n then None else lookup bdir m)" for n m
    using lookup_filter_names [of "{n}" bdir m] by simp
  show ?thesis
    unfolding delete_backup_def removed_names_def sidecar_def Let_def remove_entry_filter
    by (auto simp: l1 eq split: option.splits node.splits)
qed

lemma removed_names_touched: "removed_names bdir b \<subseteq> touched b"
  by (auto simp: removed_names_def touched_def split: option.splits node.splits if_splits)

lemma removed_names_cong:
  "(\<forall>n \<in> touched b. lookup bdir' n = lookup bdir n)
   \<Longrightarrow> removed_names bdir' b = removed_names bdir b"
  by (cases "btype b = compressed")
     (simp_all add: removed_names_def touched_def cong: option.case_cong node.case_cong)

lemma foldl_delete_backup:
  "distinct bs \<Longrightarrow>
   (\<forall>b \<in> set bs. \<forall>b' \<in> set bs. b \<noteq> b' \<longrightarrow> touched b \<inter> touched b' = {}) \<Longrightarrow>
   foldl delete_backup bdir bs
     = filter (\<lambda>e. fst e \<notin> (\<Union>b \<in> set bs. removed_names bdir b)) bdir"
proof (induction bs arbitrary: bdir)
  case Nil
  then show ?case by simp
next
  case (Cons b bs)
  let ?d = "delete_backup bdir b"
  have same: "removed_names ?d b' = removed_names bdir b'" if "b' \<in> set bs" for b'
  proof (rule removed_names_cong, rule ballI)
    fix n assume n: "n \<in> touched b'"
    from that Cons.prems have "b \<noteq> b'" by auto
    with Cons.prems(2) that have "touched b \<inter> touched b' = {}" by auto
    with n removed_names_touched [of bdir b] have "n \<notin> removed_names bdir b" by auto
    then show "lookup ?d n = lookup bdir n"
      by (simp add: delete_backup_filter lookup_filter_names)
  qed
  have "foldl delete_backup bdir (b # bs) = foldl delete_backup ?d bs" by simp
  also have "\<dots> = filter (\<lambda>e. fst e \<notin> (\<Union>b \<in> set bs. removed_names ?d b)) ?d"
    using Cons.prems by (intro Cons.IH) auto
  also have "(\<Union>b \<in> set bs. removed_names ?d b) = (\<Union>b \<in> set bs. removed_names bdir b)"
    using same by auto
  also have "filter (\<lambda>e. fst e \<notin> (\<Union>b \<in> set bs. removed_names bdir b)) ?d
     = filter (\<lambda>e. fst e \<notin> (\<Union>b \<in> set (b # bs). removed_names bdir b)) bdir"
    by (auto simp: delete_backup_filter intro: filter_cong)
  finally show ?case .
qed

lemma load_metadata_Some: "load_metadata x = Some j \<longleftrightarrow> (\<exists>n. x = File (JsonFile n j))"
  by (cases x rule: load_metadata.cases) auto

lemma scan_item_zip:
  "endswith (fst it) ''.zip'' \<Longrightarrow>
   scan_item bdir it =
     (case lookup bdir (drop_last4 (fst it) @ ''_metadata.json'') of
        Some (File (JsonFile n j)) \<Rightarrow>
          [\<lparr> bname = drop_last4 (fst it), btype = compressed, bpath = fst it, bmetadata = j \<rparr>]
      | other \<Rightarrow> [])"
  by (simp add: scan_item_def Let_def split: option.splits node.splits fdata.splits)

lemma scan_item_other:
  "\<not> endswith (fst it) ''.zip'' \<Longrightarrow>
   scan_item bdir it =
     (case snd it of
        Dir sub \<Rightarrow>
          (case lookup sub ''metadata.json'' of
             Some (File (JsonFile n j)) \<Rightarrow>
               [\<lparr> bname = fst it, btype = directory, bpath = fst it, bmetadata = j \<rparr>]
           | other \<Rightarrow> [])
      | File d \<Rightarrow> [])"
  by (simp add: scan_item_def Let_def split: option.splits node.splits fdata.splits)

lemma scan_item_zip_elem:
  "endswith (fst it) ''.zip'' \<Longrightarrow>
   b \<in> set (scan_item bdir it) \<longleftrightarrow>
     (\<exists>n j. lookup bdir (drop_last4 (fst it) @ ''_metadata.json'') = Some (File (JsonFile n j))
        \<and> b = \<lparr> bname = drop_last4 (fst it), btype = compressed, bpath = fst it, bmetadata = j \<rparr>)"
  by (cases "lookup bdir (drop_last4 (fst it) @ ''_metadata.json'')")
     (auto simp: scan_item_zip split: node.splits fdata.splits)

lemma scan_item_other_elem:
  "\<not> endswith (fst it) ''.zip'' \<Longrightarrow>
   b \<in> set (scan_item bdir it) \<longleftrightarrow>
     (\<exists>sub n j. snd it = Dir sub \<and> lookup sub ''metadata.json'' = Some (File (JsonFile n j))
        \<and> b = \<lparr> bname = fst it, btype = directory, bpath = fst it, bmetadata = j \<rparr>)"
proof (cases "snd it")
  case (File d)
  assume "\<not> endswith (fst it) ''.zip''"
  with File show ?thesis by (simp add: scan_item_other)
next
  case (Dir sub)
  assume "\<not> endswith (fst it) ''.zip''"
  with Dir show ?thesis
    by (cases "lookup sub ''metadata.json''")
       (auto simp: scan_item_other split: node.splits fdata.splits)
qed

lemma scan_item_cases:
  assumes "b \<in> set (scan_item bdir it)"
  shows "bpath b = fst it"
    and "scan_item bdir it = [b]"
    and "btype b = compressed \<Longrightarrow>
           endswith (fst it) ''.zip'' \<and> bname b = drop_last4 (fst it)
           \<and> (\<exists>n. lookup bdir (sidecar b) = Some (File (JsonFile n (bmetadata b))))"
    and "btype b \<noteq> compressed \<Longrightarrow>
           \<not> endswith (fst it) ''.zip'' \<and> bname b = fst it \<and> (\<exists>sub. snd it = Dir sub)"
proof -
  show "bpath b = fst it"
    using assms
    by (cases "endswith (fst it) ''.zip''") (auto simp: scan_item_zip_elem scan_item_other_elem)
  show "scan_item bdir it = [b]"
  proof (cases "endswith (fst it) ''.zip''")
    case True
    with assms obtain n j where
      "lookup bdir (drop_last4 (fst it) @ ''_metadata.json'') = Some (File (JsonFile n j))"
      "b = \<lparr> bname = drop_last4 (fst it), btype = compressed, bpath = fst it, bmetadata = j \<rparr>"
      by (auto simp: scan_item_zip_elem)
    with True show ?thesis by (simp add: scan_item_zip)
  next
    case False
    with assms obtain sub n j where
      "snd it = Dir sub" "lookup sub ''metadata.json'' = Some (File (JsonFile n j))"
      "b = \<lparr> bname = fst it, btype = directory, bpath = fst it, bmetadata = j \<rparr>"
      by (auto simp: scan_item_other_elem)
    with False show ?thesis by (simp add: scan_item_other)
  qed
  show "endswith (fst it) ''.zip'' \<and> bname b = drop_last4 (fst it)
           \<and> (\<exists>n. lookup bdir (sidecar b) = Some (File (JsonFile n (bmetadata b))))"
    if "btype b = compressed"
    using assms that
    by (cases "endswith (fst it) ''.zip''")
       (auto simp: scan_item_zip_elem scan_item_other_elem sidecar_def)
  show "\<not> endswith (fst it) ''.zip'' \<and> bname b = fst it \<and> (\<exists>sub. snd it = Dir sub)"
    if "btype b \<noteq> compressed"
    using assms that
    by (cases "endswith (fst it) ''.zip''")
       (auto simp: scan_item_zip_elem scan_item_other_elem)
qed

lemma scan_backups_elem:
  "b \<in> set (scan_backups bdir) \<longleftrightarrow> (\<exists>it \<in> set bdir. b \<in> set (scan_item bdir it))"
  by (auto simp: scan_backups_def)

lemma distinct_scan_aux:
  "distinct (map fst es) \<Longrightarrow> distinct (map bpath (concat (map (scan_item bdir) es)))"
proof (induction es)
  case Nil
  then show ?case by simp
next
  case (Cons e es)
  have one: "distinct (map bpath (scan_item bdir e))"
  proof (cases "scan_item bdir e")
    case Nil
    then show ?thesis by simp
  next
    case (Cons b bs)
    then have "b \<in> set (scan_item bdir e)" by simp
    then have "scan_item bdir e = [b]" by (rule scan_item_cases)
    then show ?thesis by simp
  qed
  have disj: "bpath b \<noteq> bpath b'"
    if "b \<in> set (scan_item bdir e)" "b' \<in> set (concat (map (scan_item bdir) es))" for b b'
  proof -
    from that(2) obtain it where it: "it \<in> set es" "b' \<in> set (scan_item bdir it)" by auto
    then have "bpath b' = fst it" by (simp add: scan_item_cases(1))
    moreover from that(1) have "bpath b = fst e" by (simp add: scan_item_cases(1))
    moreover from Cons.prems have "fst e \<notin> fst ` set es" by simp
    with it(1) have "fst it \<noteq> fst e" by (metis imageI)
    ultimately show ?thesis by simp
  qed
  from Cons one disj show ?case by (auto simp: image_iff)
qed

lemma distinct_bpath_scan:
  "distinct (map fst bdir) \<Longrightarrow> distinct (map bpath (scan_backups bdir))"
  by (simp add: scan_backups_def distinct_scan_aux)

lemma distinct_scan: "distinct (map fst bdir) \<Longrightarrow> distinct (scan_backups bdir)"
  using distinct_bpath_scan distinct_map by blast

lemma bpath_inj_scan:
  assumes "distinct (map fst bdir)" "b \<in> set (scan_backups bdir)" "b' \<in> set (scan_backups bdir)"
    and "bpath b = bpath b'"
  shows "b = b'"
  using assms distinct_bpath_scan [OF assms(1)]
  by (meson distinct_map inj_onD)

text \<open>What the scan says about an element of the catalogue.\<close>

lemma scan_compressed:
  assumes "b \<in> set (scan_backups bdir)" "btype b = compressed"
  shows "endswith (bpath b) ''.zip''" "bname b = drop_last4 (bpath b)"
        "bpath b = bname b @ ''.zip''"
        "\<exists>n. lookup bdir (sidecar b) = Some (File (JsonFile n (bmetadata b)))"
        "bpath b \<in> fst ` set bdir"
proof -
  from assms(1) obtain it where it: "it \<in> set bdir" "b \<in> set (scan_item bdir it)"
    by (auto simp: scan_backups_elem)
  note c = scan_item_cases(3) [OF it(2) assms(2)] and p = scan_item_cases(1) [OF it(2)]
  show "endswith (bpath b) ''.zip''" using c p by simp
  then show "bname b = drop_last4 (bpath b)" using c p by simp
  then show "bpath b = bname b @ ''.zip''" using zip_name_split c p by simp
  show "\<exists>n. lookup bdir (sidecar b) = Some (File (JsonFile n (bmetadata b)))" using c by simp
  show "bpath b \<in> fst ` set bdir" using it(1) p by auto
qed

lemma scan_directory:
  assumes "b \<in> set (scan_backups bdir)" "btype b \<noteq> compressed"
  shows "\<not> endswith (bpath b) ''.zip''" "bname b = bpath b"
        "\<exists>sub. (bpath b, Dir sub) \<in> set bdir"
proof -
  from assms(1) obtain it where it: "it \<in> set bdir" "b \<in> set (scan_item bdir it)"
    by (auto simp: scan_backups_elem)
  note c = scan_item_cases(4) [OF it(2) assms(2)] and p = scan_item_cases(1) [OF it(2)]
  show "\<not> endswith (bpath b) ''.zip''" using c p by simp
  show "bname b = bpath b" using c p by simp
  from c obtain sub where "snd it = Dir sub" by auto
  with it(1) p have "(bpath b, Dir sub) \<in> set bdir" by (metis prod.collapse)
  then show "\<exists>sub. (bpath b, Dir sub) \<in> set bdir" by blast
qed

lemma touched_disjoint:
  assumes d: "distinct (map fst bdir)"
    and b: "b \<in> set (scan_backups bdir)" and b': "b' \<in> set (scan_backups bdir)"
    and ne: "b \<noteq> b'"
  shows "touched b \<inter> touched b' = {}"
proof -
  have pne: "bpath b \<noteq> bpath b'" using bpath_inj_scan [OF d b b'] ne by auto
  have side_ne_path: "sidecar x \<noteq> bpath y"
    if "x \<in> set (scan_backups bdir)" "btype x = compressed" "y \<in> set (scan_backups bdir)" for x y
  proof (cases "btype y = compressed")
    case True
    from scan_compressed(1) [OF that(3) True] show ?thesis
      using sidecar_not_zip [of "bname x"] by (auto simp: sidecar_def)
  next
    case False
    from scan_directory(3) [OF that(3) False] obtain sub where "(bpath y, Dir sub) \<in> set bdir" by auto
    with d have "lookup bdir (bpath y) = Some (Dir sub)" by (rule lookup_distinct)
    moreover from scan_compressed(4) [OF that(1,2)]
    obtain n where "lookup bdir (sidecar x) = Some (File (JsonFile n (bmetadata x)))" by auto
    ultimately show ?thesis by auto
  qed
  have side_ne: "sidecar b \<noteq> sidecar b'" if "btype b = compressed" "btype b' = compressed"
  proof
    assume "sidecar b = sidecar b'"
    then have "bname b = bname b'" by (simp add: sidecar_def)
    with scan_compressed(3) [OF b that(1)] scan_compressed(3) [OF b' that(2)] pne
    show False by simp
  qed
  show ?thesis
    using pne side_ne side_ne_path [of b b'] side_ne_path [of b' b] b b'
    by (auto simp: touched_def split: if_splits)
qed

lemma removed_names_bpath:
  "removed_names bdir b \<noteq> {} \<Longrightarrow> bpath b \<in> removed_names bdir b"
  by (auto simp: removed_names_def split: if_splits option.splits node.splits)

lemma removed_names_directory:
  "btype b \<noteq> compressed \<Longrightarrow> n \<in> removed_names bdir b \<Longrightarrow>
   n = bpath b \<and> (\<exists>sub. lookup bdir n = Some (Dir sub))"
  by (auto simp: removed_names_def split: if_splits option.splits node.splits)

lemma concat_map_filter:
  "(\<And>e b. e \<in> set xs \<Longrightarrow> b \<in> set (f e) \<Longrightarrow> Q b \<longleftrightarrow> P e) \<Longrightarrow>
   concat (map f (filter P xs)) = filter Q (concat (map f xs))"
proof (induction xs)
  case Nil
  then show ?case by simp
next
  case (Cons x xs)
  have IH: "concat (map f (filter P xs)) = filter Q (concat (map f xs))"
    by (rule Cons.IH) (simp add: Cons.prems)
  have here: "filter Q (f x) = (if P x then f x else [])"
    using Cons.prems [of x] by (auto simp: filter_empty_conv filter_id_conv)
  show ?case by (simp add: IH here)
qed

lemma scan_item_after_removal:
  assumes d: "distinct (map fst bdir)"
    and old: "set old \<subseteq> set (scan_backups bdir)"
    and e: "e \<in> set bdir" and keep: "fst e \<notin> (\<Union>b \<in> set old. removed_names bdir b)"
  shows "scan_item (filter (\<lambda>e. fst e \<notin> (\<Union>b \<in> set old. removed_names bdir b)) bdir) e
         = scan_item bdir e"
proof (cases "endswith (fst e) ''.zip''")
  case False
  then show ?thesis by (simp add: scan_item_other)
next
  case True
  let ?R = "\<Union>b \<in> set old. removed_names bdir b"
  let ?side = "drop_last4 (fst e) @ ''_metadata.json''"
  show ?thesis
  proof (cases "?side \<in> ?R")
    case False
    have "lookup (filter (\<lambda>e. fst e \<notin> ?R) bdir) ?side = lookup bdir ?side"
      using False by (simp only: lookup_filter_names if_False)
    then show ?thesis by (simp only: scan_item_zip [OF True])
  next
    case inR: True
    then obtain b where b: "b \<in> set old" "?side \<in> removed_names bdir b" by auto
    from b(1) old have bs: "b \<in> set (scan_backups bdir)" by auto
    have dir: "btype b \<noteq> compressed"
    proof
      assume c: "btype b = compressed"
      from b(2) removed_names_touched [of bdir b] c
      have "?side = bpath b \<or> ?side = sidecar b" by (auto simp: touched_def)
      then show False
      proof
        assume "?side = bpath b"
        with scan_compressed(1) [OF bs c] sidecar_not_zip [of "drop_last4 (fst e)"]
        show False by simp
      next
        assume "?side = sidecar b"
        then have "drop_last4 (fst e) = bname b" by (simp add: sidecar_def)
        with zip_name_split [OF True] scan_compressed(3) [OF bs c]
        have "fst e = bpath b" by simp
        moreover from b(2) have "bpath b \<in> removed_names bdir b"
          by (intro removed_names_bpath) auto
        ultimately show False using keep b(1) by auto
      qed
    qed
    from removed_names_directory [OF dir b(2)]
    obtain sub where sub: "lookup bdir ?side = Some (Dir sub)" by auto
    have "lookup (filter (\<lambda>e. fst e \<notin> ?R) bdir) ?side = None"
      using inR by (simp only: lookup_filter_names if_True)
    with sub show ?thesis by (simp only: scan_item_zip [OF True]) simp
  qed
qed

lemma scan_after_removal:
  assumes d: "distinct (map fst bdir)" and old: "set old \<subseteq> set (scan_backups bdir)"
  shows "scan_backups (filter (\<lambda>e. fst e \<notin> (\<Union>b \<in> set old. removed_names bdir b)) bdir)
         = filter (\<lambda>b. bpath b \<notin> (\<Union>b \<in> set old. removed_names bdir b)) (scan_backups bdir)"
proof -
  let ?R = "\<Union>b \<in> set old. removed_names bdir b"
  let ?bdir' = "filter (\<lambda>e. fst e \<notin> ?R) bdir"
  have "scan_backups ?bdir' = concat (map (scan_item ?bdir') ?bdir')"
    by (simp add: scan_backups_def)
  also have "map (scan_item ?bdir') ?bdir' = map (scan_item bdir) ?bdir'"
    using scan_item_after_removal [OF d old] by (intro map_cong) auto
  also have "concat (map (scan_item bdir) ?bdir')
      = filter (\<lambda>b. bpath b \<notin> ?R) (concat (map (scan_item bdir) bdir))"
  proof (rule concat_map_filter)
    fix e b assume "e \<in> set bdir" "b \<in> set (scan_item bdir e)"
    then have "bpath b = fst e" by (simp add: scan_item_cases(1))
    then show "(bpath b \<notin> ?R) = (fst e \<notin> ?R)" by simp
  qed
  finally show ?thesis by (simp add: scan_backups_def)
qed

lemma bpath_removed_iff:
  assumes d: "distinct (map fst bdir)" and old: "set old \<subseteq> set (scan_backups bdir)"
    and b: "b \<in> set (scan_backups bdir)"
  shows "bpath b \<in> (\<Union>b \<in> set old. removed_names bdir b)
         \<longleftrightarrow> b \<in> set old \<and> removed_names bdir b \<noteq> {}"
proof
  assume "bpath b \<in> (\<Union>b \<in> set old. removed_names bdir b)"
  then obtain b' where b': "b' \<in> set old" "bpath b \<in> removed_names bdir b'" by auto
  have "b = b'"
  proof (rule ccontr)
    assume "b \<noteq> b'"
    with touched_disjoint [OF d b _ this] b'(1) old have "touched b \<inter> touched b' = {}" by auto
    moreover have "bpath b \<in> touched b" by (simp add: touched_def)
    moreover from b'(2) removed_names_touched [of bdir b'] have "bpath b \<in> touched b'" by auto
    ultimately show False by auto
  qed
  with b' show "b \<in> set old \<and> removed_names bdir b \<noteq> {}" by auto
next
  assume "b \<in> set old \<and> removed_names bdir b \<noteq> {}"
  then show "bpath b \<in> (\<Union>b \<in> set old. removed_names bdir b)"
    using removed_names_bpath [of bdir b] by auto
qed

lemma sort_reverse_filter: "sort_reverse k (filter Q xs) = filter Q (sort_reverse k xs)"
  by (simp add: sort_reverse_def rev_filter [symmetric] filter_sort)


lemma distinct_sort_reverse: "distinct (sort_reverse k xs) = distinct xs"
  by (simp add: sort_reverse_def)

lemma length_sort_reverse: "length (sort_reverse k xs) = length xs"
  by (simp add: sort_reverse_def)

lemma key_error_None: "key_error bs = None \<longleftrightarrow> (\<forall>b \<in> set bs. \<exists>v. timestamp_key b = Inr v)"
  by (induction bs) (auto split: sum.splits)

lemma finite_timestamps_keys:
  assumes "finite_timestamps bs"
  shows "key_error bs = None" and "\<forall>b \<in> set bs. finite_key (timestamp_of b)"
proof -
  from assms show "key_error bs = None"
    unfolding key_error_None finite_timestamps_def by blast
  show "\<forall>b \<in> set bs. finite_key (timestamp_of b)"
  proof
    fix b assume "b \<in> set bs"
    with assms obtain r where "timestamp_key b = Inr (JNum (Finite r))"
      unfolding finite_timestamps_def by blast
    then show "finite_key (timestamp_of b)" by (simp add: timestamp_of_def)
  qed
qed

lemma finite_timestamps_subset:
  "finite_timestamps bs \<Longrightarrow> set cs \<subseteq> set bs \<Longrightarrow> finite_timestamps cs"
  unfolding finite_timestamps_def by blast

lemma contract_perm:
  "py_sort_contract srt \<Longrightarrow> srt k xs = Inr ys \<Longrightarrow> mset ys = mset xs"
  unfolding py_sort_contract_def by blast

lemma contract_finite:
  "py_sort_contract srt \<Longrightarrow> \<forall>x \<in> set xs. finite_key (k x) \<Longrightarrow>
   srt k xs = Inr (sort_reverse (\<lambda>x. real_key (k x)) xs)"
  unfolding py_sort_contract_def by blast

lemma list_backups_None: "backups fs = None \<Longrightarrow> list_backups srt fs = Inr []"
  by (simp add: list_backups_def)

lemma list_backups_perm:
  assumes c: "py_sort_contract srt" and fs: "backups fs = Some bdir"
    and l: "list_backups srt fs = Inr bs"
  shows "mset bs = mset (scan_backups bdir)"
proof -
  from l fs have "srt timestamp_of (scan_backups bdir) = Inr bs"
    by (simp add: list_backups_def Let_def split: option.splits)
  with c show ?thesis by (rule contract_perm)
qed

lemma list_backups_set:
  assumes "py_sort_contract srt" "backups fs = Some bdir" "list_backups srt fs = Inr bs"
  shows "set bs = set (scan_backups bdir)" and "distinct bs \<longleftrightarrow> distinct (scan_backups bdir)"
    and "length bs = length (scan_backups bdir)"
  using list_backups_perm [OF assms]
  by (auto dest: mset_eq_setD mset_eq_imp_distinct_iff mset_eq_length)

lemma list_backups_finite:
  assumes c: "py_sort_contract srt" and fs: "backups fs = Some bdir"
    and f: "finite_timestamps (scan_backups bdir)"
  shows "list_backups srt fs = Inr (sort_reverse ts_real (scan_backups bdir))"
proof -
  have "srt timestamp_of (scan_backups bdir)
        = Inr (sort_reverse (\<lambda>x. real_key (timestamp_of x)) (scan_backups bdir))"
    using c finite_timestamps_keys(2) [OF f] by (rule contract_finite)
  then show ?thesis
    using fs finite_timestamps_keys(1) [OF f]
    by (simp add: list_backups_def Let_def ts_real_def [abs_def])
qed

lemma list_backups_sorted:
  assumes c: "py_sort_contract srt" and fs: "backups fs = Some bdir"
    and l: "list_backups srt fs = Inr bs" and f: "finite_timestamps bs"
  shows "bs = sort_reverse ts_real (scan_backups bdir)"
proof -
  from list_backups_set(1) [OF c fs l] f have "finite_timestamps (scan_backups bdir)"
    by (simp add: finite_timestamps_def)
  from list_backups_finite [OF c fs this] l show ?thesis by simp
qed

lemma last_k_drop: "n < length xs \<Longrightarrow> last_k (length xs - n) xs = drop n xs"
  by (simp add: last_k_def)

lemma cleanup_unfold:
  assumes "backups fs = Some bdir" "list_backups srt fs = Inr bs" "max_backups cfg < length bs"
  shows "cleanup_old_backups srt cfg fs
         = fs\<lparr> backups := Some (foldl delete_backup bdir (drop (max_backups cfg) bs)) \<rparr>"
  using assms by (simp add: cleanup_old_backups_def Let_def last_k_drop)

lemma cleanup_noop:
  "list_backups srt fs = Inr bs \<Longrightarrow> length bs \<le> max_backups cfg \<Longrightarrow>
   cleanup_old_backups srt cfg fs = fs"
  by (simp add: cleanup_old_backups_def)

lemma cleanup_error: "list_backups srt fs = Inl e \<Longrightarrow> cleanup_old_backups srt cfg fs = fs"
  by (simp add: cleanup_old_backups_def)

lemma cleanup_filter:
  assumes fs: "backups fs = Some bdir" and d: "distinct (map fst bdir)"
    and c: "py_sort_contract srt"
    and l: "list_backups srt fs = Inr bs" and n: "max_backups cfg < length bs"
  shows "cleanup_old_backups srt cfg fs
         = fs\<lparr> backups := Some (filter (\<lambda>e. fst e \<notin>
              (\<Union>b \<in> set (drop (max_backups cfg) bs). removed_names bdir b)) bdir) \<rparr>"
proof -
  let ?old = "drop (max_backups cfg) bs"
  have sub: "set ?old \<subseteq> set (scan_backups bdir)"
    using set_drop_subset [of "max_backups cfg" bs] list_backups_set(1) [OF c fs l] by simp
  have dbs: "distinct bs" using list_backups_set(2) [OF c fs l] d by (simp add: distinct_scan)
  then have dold: "distinct ?old" by simp
  have disj: "\<forall>b \<in> set ?old. \<forall>b' \<in> set ?old. b \<noteq> b' \<longrightarrow> touched b \<inter> touched b' = {}"
    using touched_disjoint [OF d] sub by blast
  show ?thesis
    by (simp only: cleanup_unfold [OF fs l n] foldl_delete_backup [OF dold disj])
qed

lemma list_after_cleanup:
  assumes fs: "backups fs = Some bdir" and d: "distinct (map fst bdir)"
    and c: "py_sort_contract srt"
    and l: "list_backups srt fs = Inr bs" and f: "finite_timestamps bs"
    and n: "max_backups cfg < length bs"
  shows "list_backups srt (cleanup_old_backups srt cfg fs)
         = Inr (take (max_backups cfg) bs
                @ filter (\<lambda>b. removed_names bdir b = {}) (drop (max_backups cfg) bs))"
proof -
  let ?N = "max_backups cfg"
  let ?old = "drop ?N bs"
  let ?R = "\<Union>b \<in> set ?old. removed_names bdir b"
  let ?bdir' = "filter (\<lambda>e. fst e \<notin> ?R) bdir"
  have bs: "bs = sort_reverse ts_real (scan_backups bdir)"
    by (rule list_backups_sorted [OF c fs l f])
  have fscan: "finite_timestamps (scan_backups bdir)"
    using f list_backups_set(1) [OF c fs l] by (simp add: finite_timestamps_def)
  have sub: "set ?old \<subseteq> set (scan_backups bdir)"
    using set_drop_subset [of ?N bs] list_backups_set(1) [OF c fs l] by simp
  have dbs: "distinct bs" using list_backups_set(2) [OF c fs l] d by (simp add: distinct_scan)
  have scan': "scan_backups ?bdir' = filter (\<lambda>b. bpath b \<notin> ?R) (scan_backups bdir)"
    by (rule scan_after_removal [OF d sub])
  have f': "finite_timestamps (scan_backups ?bdir')"
    using fscan unfolding scan' by (rule finite_timestamps_subset) simp
  have b': "backups (cleanup_old_backups srt cfg fs) = Some ?bdir'"
    by (simp add: cleanup_filter [OF fs d c l n])
  have "list_backups srt (cleanup_old_backups srt cfg fs)
        = Inr (sort_reverse ts_real (scan_backups ?bdir'))"
    by (rule list_backups_finite [OF c b' f'])
  also have "sort_reverse ts_real (scan_backups ?bdir') = filter (\<lambda>b. bpath b \<notin> ?R) bs"
    unfolding scan' by (simp only: sort_reverse_filter bs [symmetric])
  also have "\<dots> = filter (\<lambda>b. \<not> (b \<in> set ?old \<and> removed_names bdir b \<noteq> {})) bs"
  proof (rule filter_cong [OF refl])
    fix b assume "b \<in> set bs"
    then have "b \<in> set (scan_backups bdir)" using list_backups_set(1) [OF c fs l] by simp
    from bpath_removed_iff [OF d sub this]
    show "(bpath b \<notin> ?R) = (\<not> (b \<in> set ?old \<and> removed_names bdir b \<noteq> {}))" by simp
  qed
  also have "\<dots> = filter (\<lambda>b. \<not> (b \<in> set ?old \<and> removed_names bdir b \<noteq> {})) (take ?N bs @ ?old)"
    by simp
  also have "\<dots> = take ?N bs @ filter (\<lambda>b. removed_names bdir b = {}) ?old"
  proof -
    have "set (take ?N bs) \<inter> set ?old = {}"
      using dbs by (metis append_take_drop_id distinct_append)
    then have a: "filter (\<lambda>b. \<not> (b \<in> set ?old \<and> removed_names bdir b \<noteq> {})) (take ?N bs) = take ?N bs"
      by (auto simp: filter_id_conv)
    have b: "filter (\<lambda>b. \<not> (b \<in> set ?old \<and> removed_names bdir b \<noteq> {})) ?old
           = filter (\<lambda>b. removed_names bdir b = {}) ?old"
      by (rule filter_cong) auto
    show ?thesis by (simp only: filter_append a b)
  qed
  finally show ?thesis .
qed

lemma delete_backup_noop: "removed_names bdir b = {} \<Longrightarrow> delete_backup bdir b = bdir"
  by (simp add: delete_backup_filter)

lemma foldl_noop: "(\<And>b. b \<in> set bs \<Longrightarrow> f x b = x) \<Longrightarrow> foldl f x bs = x"
  by (induction bs) simp_all



lemma cleanup_idem:
  assumes wf: "wf_backup_dir fs" and c: "py_sort_contract srt"
    and f: "\<forall>bs. list_backups srt fs = Inr bs \<longrightarrow> finite_timestamps bs"
  shows "cleanup_old_backups srt cfg (cleanup_old_backups srt cfg fs) = cleanup_old_backups srt cfg fs"
proof (cases "list_backups srt fs")
  case (Inl e)
  then show ?thesis by (simp add: cleanup_error)
next
  case (Inr bs)
  let ?N = "max_backups cfg"
  show ?thesis
  proof (cases "length bs \<le> ?N")
    case True
    with Inr show ?thesis by (simp add: cleanup_noop)
  next
    case False
    then have n: "?N < length bs" by simp
    from Inr False obtain bdir where fs: "backups fs = Some bdir"
      by (cases "backups fs") (auto simp: list_backups_def)
    with wf have d: "distinct (map fst bdir)" by (simp add: wf_backup_dir_def)
    from f Inr have fin: "finite_timestamps bs" by simp
    let ?old = "drop ?N bs"
    let ?R = "\<Union>b \<in> set ?old. removed_names bdir b"
    let ?bdir' = "filter (\<lambda>e. fst e \<notin> ?R) bdir"
    let ?fs' = "cleanup_old_backups srt cfg fs"
    let ?U = "filter (\<lambda>b. removed_names bdir b = {}) ?old"
    have fs': "?fs' = fs\<lparr> backups := Some ?bdir' \<rparr>" by (rule cleanup_filter [OF fs d c Inr n])
    then have b': "backups ?fs' = Some ?bdir'" by simp
    have l': "list_backups srt ?fs' = Inr (take ?N bs @ ?U)"
      by (rule list_after_cleanup [OF fs d c Inr fin n])
    have sub: "set ?old \<subseteq> set (scan_backups bdir)"
      using set_drop_subset [of ?N bs] list_backups_set(1) [OF c fs Inr] by simp
    show ?thesis
    proof (cases "?U = []")
      case True
      with l' have "list_backups srt ?fs' = Inr (take ?N bs)" by simp
      then show ?thesis by (rule cleanup_noop) simp
    next
      case False
      have len: "?N < length (take ?N bs @ ?U)" using n False by (simp add: min_def)
      have dr: "drop ?N (take ?N bs @ ?U) = ?U" using n by simp
      have noop: "delete_backup ?bdir' b = ?bdir'" if "b \<in> set ?U" for b
      proof (rule delete_backup_noop)
        from that have b: "b \<in> set ?old" "removed_names bdir b = {}" by auto
        have "removed_names ?bdir' b = removed_names bdir b"
        proof (rule removed_names_cong, rule ballI)
          fix m assume m: "m \<in> touched b"
          have "m \<notin> ?R"
          proof
            assume "m \<in> ?R"
            then obtain c where c: "c \<in> set ?old" "m \<in> removed_names bdir c" by auto
            with b(2) have "b \<noteq> c" by auto
            with touched_disjoint [OF d _ _ this] b(1) c(1) sub
            have "touched b \<inter> touched c = {}" by auto
            with m c(2) removed_names_touched [of bdir c] show False by auto
          qed
          then show "lookup ?bdir' m = lookup bdir m" by (simp only: lookup_filter_names if_False)
        qed
        with b(2) show "removed_names ?bdir' b = {}" by simp
      qed
      have "cleanup_old_backups srt cfg ?fs'
            = ?fs'\<lparr> backups := Some (foldl delete_backup ?bdir' (drop ?N (take ?N bs @ ?U))) \<rparr>"
        by (rule cleanup_unfold [OF b' l' len])
      also have "foldl delete_backup ?bdir' (drop ?N (take ?N bs @ ?U)) = ?bdir'"
        unfolding dr by (rule foldl_noop) (rule noop)
      also have "?fs'\<lparr> backups := Some ?bdir' \<rparr> = ?fs'" using b' by simp
      finally show ?thesis .
    qed
  qed
qed

lemma cleanup_frame:
  "content (cleanup_old_backups srt cfg fs) = content fs
   \<and> base_files (cleanup_old_backups srt cfg fs) = base_files fs"
  by (simp add: cleanup_old_backups_def Let_def split: sum.splits option.splits)

lemma cleanup_cases:
  assumes fs: "backups fs = Some bdir" and d: "distinct (map fst bdir)"
    and c: "py_sort_contract srt"
  shows "cleanup_old_backups srt cfg fs = fs
       \<or> (\<exists>bs. list_backups srt fs = Inr bs \<and> max_backups cfg < length bs
            \<and> cleanup_old_backups srt cfg fs
                = fs\<lparr> backups := Some (filter (\<lambda>e. fst e \<notin>
                    (\<Union>b \<in> set (drop (max_backups cfg) bs). removed_names bdir b)) bdir) \<rparr>
            \<and> set (drop (max_backups cfg) bs) \<subseteq> set (scan_backups bdir))"
proof (cases "list_backups srt fs")
  case (Inl e)
  then show ?thesis by (simp add: cleanup_error)
next
  case (Inr bs)
  show ?thesis
  proof (cases "length bs \<le> max_backups cfg")
    case True
    with Inr show ?thesis by (simp add: cleanup_noop)
  next
    case False
    then have n: "max_backups cfg < length bs" by simp
    have "set (drop (max_backups cfg) bs) \<subseteq> set (scan_backups bdir)"
      using set_drop_subset [of "max_backups cfg" bs] list_backups_set(1) [OF c fs Inr] by simp
    with Inr n cleanup_filter [OF fs d c Inr n] show ?thesis by blast
  qed
qed



lemma mset_take_drop: "mset (take l a) + mset (drop l a) = mset a"
  by (metis append_take_drop_id mset_append)

lemma mset_binsert: "mset (binsert k a p) = add_mset p (mset a)"
  by (simp add: binsert_def Let_def mset_take_drop)

lemma mset_foldl_binsert: "mset (foldl (binsert k) a xs) = mset a + mset xs"
  by (induction xs arbitrary: a) (simp_all add: mset_binsert)

lemma mset_sort_small: "mset (sort_small k xs) = mset xs"
proof -
  obtain n d where nd: "count_run k xs = (n, d)" by (cases "count_run k xs")
  show ?thesis by (simp add: sort_small_def nd mset_foldl_binsert mset_take_drop)
qed

lemma mset_sort_reverse: "mset (sort_reverse k xs) = mset xs"
  by (simp add: sort_reverse_def)

lemma ex_sort_contract: "py_sort_contract ex_sort"
  unfolding py_sort_contract_def
proof (intro conjI allI impI)
  fix k :: "backup_info \<Rightarrow> jv" and xs ys :: "backup_info list"
  assume "ex_sort k xs = Inr ys"
  then show "mset ys = mset xs"
    by (auto simp: ex_sort_def mset_sort_reverse mset_sort_small split: if_splits)
next
  fix k :: "backup_info \<Rightarrow> jv" and xs :: "backup_info list"
  assume "\<forall>x \<in> set xs. finite_key (k x)"
  then show "ex_sort k xs = Inr (sort_reverse (\<lambda>x. real_key (k x)) xs)"
    by (simp add: ex_sort_def list_all_iff)
qed

lemmas ex_defs = ex_meta_def ex_backups_def ex_fs_def ex_cfg_def CONFIG_def

lemma ex_wf: "wf_backup_dir ex_fs"
  by (simp add: wf_backup_dir_def ex_defs)

lemma ex_scan: "scan_backups ex_backups =
   [\<lparr>bname = ''a'', btype = compressed, bpath = ''a.zip'', bmetadata = ex_meta ''a'' 1\<rparr>,
    \<lparr>bname = ''b'', btype = directory, bpath = ''b'', bmetadata = ex_meta ''b'' 3\<rparr>,
    \<lparr>bname = ''c'', btype = compressed, bpath = ''c.zip'', bmetadata = ex_meta ''c'' 2\<rparr>]"
  by (simp add: scan_backups_def scan_item_def endswith_def drop_last4_def ex_backups_def Let_def)

lemma ex_key: "timestamp_key \<lparr>bname = n, btype = t, bpath = p, bmetadata = ex_meta m r\<rparr> = Inr (JNum (Finite r))"
  by (simp add: ex_meta_def dump_metadata_def)

lemma ex_list: "list_backups ex_sort ex_fs = Inr
   [\<lparr>bname = ''b'', btype = directory, bpath = ''b'', bmetadata = ex_meta ''b'' 3\<rparr>,
    \<lparr>bname = ''c'', btype = compressed, bpath = ''c.zip'', bmetadata = ex_meta ''c'' 2\<rparr>,
    \<lparr>bname = ''a'', btype = compressed, bpath = ''a.zip'', bmetadata = ex_meta ''a'' 1\<rparr>]"
  by (simp add: list_backups_def ex_fs_def ex_scan ex_sort_def sort_reverse_def timestamp_of_def
        ex_meta_def dump_metadata_def)

lemma ex_cleanup: "backups (cleanup_old_backups ex_sort ex_cfg ex_fs) = Some
    [(''b'', Dir [(''metadata.json'', File (JsonFile 7 (ex_meta ''b'' 3)))]),
     (''c.zip'', File (ZipArch 9 [])),
     (''c_metadata.json'', File (JsonFile 7 (ex_meta ''c'' 2))),
     (''orphan.zip'', File (ZipArch 9 [])),
     (''pre_restore_backup_20240101_000000'', Dir [(''ch1.md'', File (Blob ''hello''))])]"
  by (simp add: cleanup_old_backups_def ex_list last_k_def delete_backup_def ex_cfg_def CONFIG_def)
     (simp add: ex_fs_def ex_backups_def delete_backup_def)

lemma nan_scan: "scan_backups nan_backups =
   [\<lparr>bname = ''a'', btype = compressed, bpath = ''a.zip'', bmetadata = nan_meta ''a'' (Finite 1)\<rparr>,
    \<lparr>bname = ''b'', btype = compressed, bpath = ''b.zip'', bmetadata = nan_meta ''b'' NaN\<rparr>,
    \<lparr>bname = ''c'', btype = compressed, bpath = ''c.zip'', bmetadata = nan_meta ''c'' (Finite 2)\<rparr>]"
  by (simp add: scan_backups_def scan_item_def endswith_def drop_last4_def nan_backups_def Let_def)

lemma nan_list: "list_backups ex_sort nan_fs = Inr
   [\<lparr>bname = ''a'', btype = compressed, bpath = ''a.zip'', bmetadata = nan_meta ''a'' (Finite 1)\<rparr>,
    \<lparr>bname = ''b'', btype = compressed, bpath = ''b.zip'', bmetadata = nan_meta ''b'' NaN\<rparr>,
    \<lparr>bname = ''c'', btype = compressed, bpath = ''c.zip'', bmetadata = nan_meta ''c'' (Finite 2)\<rparr>]"
  by (simp add: list_backups_def nan_fs_def nan_scan ex_sort_def sort_small_def timestamp_of_def
        nan_meta_def)

lemma nan_cleanup1: "cleanup_old_backups ex_sort nan_cfg nan_fs = nan_fs\<lparr> backups := Some
    [(''a.zip'', File (ZipArch 9 [])),
     (''a_metadata.json'', File (JsonFile 7 (nan_meta ''a'' (Finite 1)))),
     (''c.zip'', Dir []),
     (''c_metadata.json'', File (JsonFile 7 (nan_meta ''c'' (Finite 2))))] \<rparr>"
  by (simp add: cleanup_old_backups_def nan_list last_k_def nan_cfg_def CONFIG_def)
     (simp add: nan_fs_def nan_backups_def delete_backup_def)

lemma nan_list2: "list_backups ex_sort (nan_fs\<lparr> backups := Some
    [(''a.zip'', File (ZipArch 9 [])),
     (''a_metadata.json'', File (JsonFile 7 (nan_meta ''a'' (Finite 1)))),
     (''c.zip'', Dir []),
     (''c_metadata.json'', File (JsonFile 7 (nan_meta ''c'' (Finite 2))))] \<rparr>) = Inr
   [\<lparr>bname = ''c'', btype = compressed, bpath = ''c.zip'', bmetadata = nan_meta ''c'' (Finite 2)\<rparr>,
    \<lparr>bname = ''a'', btype = compressed, bpath = ''a.zip'', bmetadata = nan_meta ''a'' (Finite 1)\<rparr>]"
  by (simp add: list_backups_def scan_backups_def scan_item_def endswith_def drop_last4_def Let_def
        ex_sort_def sort_reverse_def timestamp_of_def nan_meta_def)

lemma nan_cleanup2: "backups (cleanup_old_backups ex_sort nan_cfg (cleanup_old_backups ex_sort nan_cfg nan_fs))
   = Some [(''c.zip'', Dir []), (''c_metadata.json'', File (JsonFile 7 (nan_meta ''c'' (Finite 2))))]"
  unfolding nan_cleanup1
  by (simp add: cleanup_old_backups_def nan_list2 last_k_def nan_cfg_def CONFIG_def)
     (simp add: delete_backup_def)

lemma nan_wf: "wf_backup_dir nan_fs"
  by (simp add: wf_backup_dir_def nan_fs_def nan_backups_def)

text \<open>
  C10. Trimming only removes entries that belong to an element of the catalogue: its
  archive or directory, and the metadata file beside a compressed archive; it adds nothing
  and touches neither the content tree nor the configuration files. An archive or
  directory of the backup directory that yields no element of the catalogue (an archive
  without readable metadata, the snapshot a restore leaves behind) is still there after
  \<open>cleanup_old_backups\<close>, and still yields no element, so that no later call removes it
  either: such entries are not bounded by \<open>max_backups\<close>.
\<close>

theorem cleanup_only_removes_listed:
  assumes fs: "backups fs = Some bdir" and d: "distinct (map fst bdir)"
    and c: "py_sort_contract srt"
  shows "\<exists>bdir'. backups (cleanup_old_backups srt cfg fs) = Some bdir'
           \<and> set bdir' \<subseteq> set bdir
           \<and> (\<forall>e \<in> set bdir. e \<notin> set bdir' \<longrightarrow>
                 (\<exists>b \<in> set (scan_backups bdir). fst e \<in> touched b))
           \<and> (\<forall>e \<in> set bdir. (endswith (fst e) ''.zip'' \<or> is_dir (Some (snd e)))
                   \<and> scan_item bdir e = [] \<longrightarrow> e \<in> set bdir' \<and> scan_item bdir' e = [])
           \<and> content (cleanup_old_backups srt cfg fs) = content fs
           \<and> base_files (cleanup_old_backups srt cfg fs) = base_files fs"
proof -
  from cleanup_cases [OF fs d c, of cfg]
  consider (same) "cleanup_old_backups srt cfg fs = fs"
    | (trim) bs where "list_backups srt fs = Inr bs" "max_backups cfg < length bs"
      "cleanup_old_backups srt cfg fs
         = fs\<lparr> backups := Some (filter (\<lambda>e. fst e \<notin>
              (\<Union>b \<in> set (drop (max_backups cfg) bs). removed_names bdir b)) bdir) \<rparr>"
      "set (drop (max_backups cfg) bs) \<subseteq> set (scan_backups bdir)"
    by blast
  then show ?thesis
  proof cases
    case same
    with fs show ?thesis by simp
  next
    case (trim bs)
    let ?old = "drop (max_backups cfg) bs"
    let ?R = "\<Union>b \<in> set ?old. removed_names bdir b"
    let ?bdir' = "filter (\<lambda>e. fst e \<notin> ?R) bdir"
    have sub: "set ?bdir' \<subseteq> set bdir" by auto
    have gone: "\<exists>b \<in> set (scan_backups bdir). fst e \<in> touched b"
      if "e \<in> set bdir" "e \<notin> set ?bdir'" for e
    proof -
      from that have "fst e \<in> ?R" by simp
      then obtain b where "b \<in> set ?old" "fst e \<in> removed_names bdir b" by auto
      with trim(4) removed_names_touched [of bdir b] show ?thesis by blast
    qed
    have kept: "e \<in> set ?bdir' \<and> scan_item ?bdir' e = []"
      if e: "e \<in> set bdir" and arch: "endswith (fst e) ''.zip'' \<or> is_dir (Some (snd e))"
        and un: "scan_item bdir e = []" for e
    proof -
      obtain n x where nx: "e = (n, x)" by (cases e)
      have nR: "n \<notin> ?R"
      proof
        assume "n \<in> ?R"
        then obtain b where b: "b \<in> set ?old" "n \<in> removed_names bdir b" by auto
        with trim(4) have bs: "b \<in> set (scan_backups bdir)" by auto
        then obtain it where it: "it \<in> set bdir" "b \<in> set (scan_item bdir it)"
          by (auto simp: scan_backups_elem)
        have "n \<noteq> bpath b"
        proof
          assume "n = bpath b"
          with scan_item_cases(1) [OF it(2)] have "fst it = n" by simp
          with it(1) e d nx have "it = (n, x)" by (metis eq_key_imp_eq_value prod.collapse)
          with it(2) un nx show False by simp
        qed
        with b(2) removed_names_touched [of bdir b]
        have c: "btype b = compressed" and s: "n = sidecar b"
          by (auto simp: touched_def split: if_splits)
        from scan_compressed(4) [OF bs c] s
        obtain k where k: "lookup bdir n = Some (File (JsonFile k (bmetadata b)))" by auto
        from s have "\<not> endswith n ''.zip''" by (simp add: sidecar_def sidecar_not_zip)
        with arch nx obtain sub where "x = Dir sub" by (cases x) auto
        with e d nx have "lookup bdir n = Some (Dir sub)" by (simp add: lookup_distinct)
        with k show False by simp
      qed
      have keep: "e \<in> set ?bdir'" using e nR nx by simp
      have "scan_item ?bdir' e = scan_item bdir e"
        using scan_item_after_removal [OF d trim(4) e] nR nx by simp
      with un keep show ?thesis by simp
    qed
    from trim(3) have b': "backups (cleanup_old_backups srt cfg fs) = Some ?bdir'" by simp
    have fr: "content (cleanup_old_backups srt cfg fs) = content fs
        \<and> base_files (cleanup_old_backups srt cfg fs) = base_files fs"
      by (rule cleanup_frame)
    show ?thesis
      apply (rule exI [of _ ?bdir'])
      using b' sub gone kept fr by blast
  qed
qed

theorem cleanup_only_removes_listed_witness:
  "backups ex_fs = Some ex_backups \<and> distinct (map fst ex_backups) \<and> py_sort_contract ex_sort
   \<and> scan_item ex_backups (''orphan.zip'', the (lookup ex_backups ''orphan.zip'')) = []
   \<and> scan_item ex_backups (''pre_restore_backup_20240101_000000'',
        the (lookup ex_backups ''pre_restore_backup_20240101_000000'')) = []
   \<and> (\<exists>bdir'. backups (cleanup_old_backups ex_sort ex_cfg ex_fs) = Some bdir'
         \<and> set bdir' \<subseteq> set ex_backups
         \<and> (''orphan.zip'', the (lookup ex_backups ''orphan.zip'')) \<in> set bdir'
         \<and> (''pre_restore_backup_20240101_000000'',
              the (lookup ex_backups ''pre_restore_backup_20240101_000000'')) \<in> set bdir'
         \<and> lookup bdir' ''a.zip'' = None
         \<and> (\<exists>b \<in> set (scan_backups ex_backups). ''a.zip'' \<in> touched b))"
proof -
  let ?o = "(''orphan.zip'', the (lookup ex_backups ''orphan.zip''))"
  let ?p = "(''pre_restore_backup_20240101_000000'',
        the (lookup ex_backups ''pre_restore_backup_20240101_000000''))"
  let ?a = "(''a.zip'', the (lookup ex_backups ''a.zip''))"
  have fs: "backups ex_fs = Some ex_backups" by (simp add: ex_fs_def)
  have d: "distinct (map fst ex_backups)" by (simp add: ex_backups_def)
  have o: "?o \<in> set ex_backups" "endswith (fst ?o) ''.zip'' \<or> is_dir (Some (snd ?o))"
    "scan_item ex_backups ?o = []"
    by (simp_all add: ex_backups_def scan_item_def endswith_def drop_last4_def)
  have p: "?p \<in> set ex_backups" "endswith (fst ?p) ''.zip'' \<or> is_dir (Some (snd ?p))"
    "scan_item ex_backups ?p = []"
    by (simp_all add: ex_backups_def scan_item_def endswith_def drop_last4_def)
  have a: "?a \<in> set ex_backups" by (simp add: ex_backups_def)
  have gone: "lookup (the (backups (cleanup_old_backups ex_sort ex_cfg ex_fs))) ''a.zip'' = None"
    "?a \<notin> set (the (backups (cleanup_old_backups ex_sort ex_cfg ex_fs)))"
    by (simp_all add: ex_cleanup)
  from cleanup_only_removes_listed [OF fs d ex_sort_contract, of ex_cfg]
  obtain bdir' where r: "backups (cleanup_old_backups ex_sort ex_cfg ex_fs) = Some bdir'"
    "set bdir' \<subseteq> set ex_backups"
    "\<forall>e \<in> set ex_backups. e \<notin> set bdir' \<longrightarrow>
                 (\<exists>b \<in> set (scan_backups ex_backups). fst e \<in> touched b)"
    "\<forall>e \<in> set ex_backups. (endswith (fst e) ''.zip'' \<or> is_dir (Some (snd e)))
                   \<and> scan_item ex_backups e = [] \<longrightarrow> e \<in> set bdir' \<and> scan_item bdir' e = []"
    by blast
  from r(4) o have "?o \<in> set bdir'" by blast
  moreover from r(4) p have "?p \<in> set bdir'" by blast
  moreover from gone r(1) have "lookup bdir' ''a.zip'' = None" "?a \<notin> set bdir'" by simp_all
  moreover from this(2) r(3) a have "\<exists>b \<in> set (scan_backups ex_backups). ''a.zip'' \<in> touched b"
    by fastforce
  ultimately show ?thesis using fs d ex_sort_contract o(3) p(3) r(1) r(2) by blast
qed

text \<open>
  C8 (counterexample). With the backup directory \<open>nan_backups\<close> and a limit of one backup, the
  first \<open>cleanup_old_backups\<close> removes backup \<^verbatim>\<open>b\<close> (and fails to remove \<^verbatim>\<open>c.zip\<close>, a directory);
  the second call removes backup \<^verbatim>\<open>a\<close>.
\<close>

theorem cleanup_not_idempotent_nan:
  "wf_backup_dir nan_fs \<and> py_sort_contract ex_sort
   \<and> map fst (the (backups (cleanup_old_backups ex_sort nan_cfg nan_fs)))
       = [''a.zip'', ''a_metadata.json'', ''c.zip'', ''c_metadata.json'']
   \<and> map fst (the (backups (cleanup_old_backups ex_sort nan_cfg
                              (cleanup_old_backups ex_sort nan_cfg nan_fs))))
       = [''c.zip'', ''c_metadata.json'']
   \<and> cleanup_old_backups ex_sort nan_cfg (cleanup_old_backups ex_sort nan_cfg nan_fs)
       \<noteq> cleanup_old_backups ex_sort nan_cfg nan_fs"
proof -
  have 1: "map fst (the (backups (cleanup_old_backups ex_sort nan_cfg nan_fs)))
       = [''a.zip'', ''a_metadata.json'', ''c.zip'', ''c_metadata.json'']"
    by (simp add: nan_cleanup1)
  have 2: "map fst (the (backups (cleanup_old_backups ex_sort nan_cfg
                              (cleanup_old_backups ex_sort nan_cfg nan_fs))))
       = [''c.zip'', ''c_metadata.json'']"
    by (simp add: nan_cleanup2)
  from 1 2 have "cleanup_old_backups ex_sort nan_cfg (cleanup_old_backups ex_sort nan_cfg nan_fs)
       \<noteq> cleanup_old_backups ex_sort nan_cfg nan_fs" by auto
  with 1 2 nan_wf ex_sort_contract show ?thesis by blast
qed

text \<open>
  C8 (as amended). When every timestamp of the catalogue is a finite number, a second
  \<open>cleanup_old_backups\<close> right after the first changes nothing; and \<open>cleanup_old_backups\<close>
  changes nothing when the catalogue has at most \<open>max_backups\<close> elements.
\<close>

theorem cleanup_idempotent_finite:
  assumes wf: "wf_backup_dir fs" and c: "py_sort_contract srt" and f: "finite_catalog fs"
  shows "cleanup_old_backups srt cfg (cleanup_old_backups srt cfg fs) = cleanup_old_backups srt cfg fs
       \<and> (\<forall>bs. list_backups srt fs = Inr bs \<longrightarrow> length bs \<le> max_backups cfg
              \<longrightarrow> cleanup_old_backups srt cfg fs = fs)"
proof -
  have "\<forall>bs. list_backups srt fs = Inr bs \<longrightarrow> finite_timestamps bs"
  proof (intro allI impI)
    fix bs assume l: "list_backups srt fs = Inr bs"
    show "finite_timestamps bs"
    proof (cases "backups fs")
      case None
      with l show ?thesis by (simp add: list_backups_None finite_timestamps_def)
    next
      case (Some bdir)
      with f have "finite_timestamps (scan_backups bdir)" by (simp add: finite_catalog_def)
      with list_backups_set(1) [OF c Some l] show ?thesis by (simp add: finite_timestamps_def)
    qed
  qed
  from cleanup_idem [OF wf c this] cleanup_noop show ?thesis by blast
qed

theorem cleanup_idempotent_finite_witness:
  "wf_backup_dir ex_fs \<and> py_sort_contract ex_sort \<and> finite_catalog ex_fs
   \<and> cleanup_old_backups ex_sort ex_cfg (cleanup_old_backups ex_sort ex_cfg ex_fs)
       = cleanup_old_backups ex_sort ex_cfg ex_fs
   \<and> backups (cleanup_old_backups ex_sort ex_cfg ex_fs) \<noteq> backups ex_fs
   \<and> (\<exists>bs. list_backups ex_sort ex_fs = Inr bs \<and> length bs \<le> max_backups (CONFIG ''/srv/site'')
         \<and> cleanup_old_backups ex_sort (CONFIG ''/srv/site'') ex_fs = ex_fs)"
proof -
  have ne: "backups (cleanup_old_backups ex_sort ex_cfg ex_fs) \<noteq> backups ex_fs"
    by (simp add: ex_cleanup) (simp add: ex_fs_def ex_backups_def)
  have fin: "finite_catalog ex_fs"
    by (simp add: finite_catalog_def ex_fs_def ex_scan finite_timestamps_def ex_meta_def
          dump_metadata_def)
  have len: "\<exists>bs. list_backups ex_sort ex_fs = Inr bs \<and> length bs \<le> max_backups (CONFIG ''/srv/site'')"
    by (simp add: ex_list CONFIG_def)
  from cleanup_idempotent_finite [OF ex_wf ex_sort_contract fin] ex_wf ex_sort_contract fin ne len
  show ?thesis by blast
qed






section \<open>Restoring\<close>






lemma restore_content_backups: "backups (snd (restore_content st fs)) = backups fs"
  by (auto simp: restore_content_def seq_def split: option.splits node.splits prod.splits)

lemma restore_config_loop_backups: "backups (snd (restore_config_loop cdir cs fs)) = backups fs"
  by (induction cdir cs fs rule: restore_config_loop.induct)
     (auto split: option.splits node.splits)

lemma restore_config_backups: "backups (snd (restore_config cfg st fs)) = backups fs"
  by (auto simp: restore_config_def restore_config_loop_backups split: option.splits node.splits)













lemma ok_temp: "temp_name ok_renv = ''temp_restore_1704067201''"
  by (simp add: temp_name_def ok_renv_def py_int_def show_int_def digit_def)

lemma ok_restore: "restore_backup ex_sort ex_cfg ok_renv ''a'' ex_fs
   = (Inr True, ex_fs\<lparr> backups := Some (ex_backups @
        [(''pre_restore_backup_20240101_000001'', Dir [(''ch1.md'', File (Blob ''hello''))])]) \<rparr>)"
proof -
  have 1: "restore_backup ex_sort ex_cfg ok_renv ''a'' ex_fs
    = (let temp = ''temp_restore_1704067201'' in
       case makedirs_exist_ok temp ex_backups of
         (Some e, bdir') \<Rightarrow> (Inl e, ex_fs)
       | (None, bdir') \<Rightarrow>
           (case restore_steps ex_cfg ok_renv
               \<lparr>bname = ''a'', btype = compressed, bpath = ''a.zip'', bmetadata = ex_meta ''a'' 1\<rparr>
               temp (ex_fs\<lparr> backups := Some bdir' \<rparr>) of
              (r, fs') \<Rightarrow>
                (case remove_temp temp fs' of
                   (Some e, fs'') \<Rightarrow> (Inl e, fs'')
                 | (None, fs'') \<Rightarrow> (case r of Some e \<Rightarrow> Inl e | None \<Rightarrow> Inr True, fs''))))"
    unfolding restore_backup_def ex_list ok_temp
    by (simp add: ok_renv_def py_lower_def lower_char_def ex_fs_def)
  show ?thesis
    unfolding 1
    by (simp add: makedirs_exist_ok_def restore_steps_def seq_def stage_def with_dir_def
          ex_backups_def ex_fs_def write_file_def snapshot_current_def get_backup_filename_def
          strftime_def pad2_def pad4_def digit_def ok_renv_def staged_entries_def
          restore_content_def restore_config_def remove_temp_def)
qed

lemma lookup_None_iff: "lookup es n = None \<longleftrightarrow> n \<notin> fst ` set es"
  by (simp add: lookup_map_of map_of_eq_None_iff)

lemma put_entry_new: "lookup es n = None \<Longrightarrow> put_entry n x es = es @ [(n, x)]"
  by (induction es) (auto split: if_splits)

lemma digit_cases: "digit d \<in> set ''0123456789''"
proof -
  have "d mod 10 < length ''0123456789''" by simp
  then show ?thesis unfolding digit_def by (rule nth_mem)
qed

lemma digit_not_p: "digit d \<noteq> CHR ''p''"
  using digit_cases [of d] by auto

lemma strftime_last: "\<exists>r. strftime now = r @ [digit (second now)]"
  by (simp add: strftime_def pad2_def)

lemma snapshot_name_not_zip:
  "\<not> endswith (''pre_restore_'' @ get_backup_filename now) ''.zip''"
proof
  assume "endswith (''pre_restore_'' @ get_backup_filename now) ''.zip''"
  then obtain r where r: "''pre_restore_'' @ get_backup_filename now = r @ ''.zip''"
    by (auto simp: endswith_iff)
  obtain q where "strftime now = q @ [digit (second now)]" using strftime_last by blast
  then have "''pre_restore_'' @ get_backup_filename now
             = (''pre_restore_backup_'' @ q) @ [digit (second now)]"
    by (simp add: get_backup_filename_def)
  with r have "(''pre_restore_backup_'' @ q) @ [digit (second now)] = (r @ ''.zi'') @ ''p''" by simp
  then have "digit (second now) = CHR ''p''" by (simp only: append1_eq_conv)
  with digit_not_p show False by blast
qed

lemma temp_not_snapshot: "temp_name env \<noteq> ''pre_restore_'' @ n"
  by (simp add: temp_name_def)

lemma restore_steps_ok:
  assumes s: "restore_steps cfg env info temp fs = (None, fs')"
    and b: "backups fs = Some bdir" and c: "content fs = Some (Dir es)"
  shows "\<exists>b1. stage info temp bdir = (None, b1)
           \<and> lookup b1 (''pre_restore_'' @ get_backup_filename (r_now env)) = None
           \<and> backups fs' = Some (put_entry (''pre_restore_'' @ get_backup_filename (r_now env)) (Dir es) b1)"
proof -
  let ?snap = "''pre_restore_'' @ get_backup_filename (r_now env)"
  obtain r1 b1 where st: "stage info temp bdir = (r1, b1)" by (cases "stage info temp bdir")
  let ?fs1 = "fs\<lparr> backups := Some b1 \<rparr>"
  have r1: "r1 = None" using s st b by (cases r1) (simp_all add: restore_steps_def seq_def)
  obtain r2 fs2 where sn: "snapshot_current ?snap ?fs1 = (r2, fs2)"
    by (cases "snapshot_current ?snap ?fs1")
  have r2: "r2 = None" using s st b r1 sn by (cases r2) (simp_all add: restore_steps_def seq_def)
  from sn r2 c have l: "lookup b1 ?snap = None"
    and fs2: "fs2 = ?fs1\<lparr> backups := Some (put_entry ?snap (Dir es) b1) \<rparr>"
    by (auto simp: snapshot_current_def split: option.splits)
  obtain r3 fs3 where rc: "restore_content (staged_entries temp fs2) fs2 = (r3, fs3)"
    by (cases "restore_content (staged_entries temp fs2) fs2")
  have r3: "r3 = None" using s st b r1 sn r2 rc by (cases r3) (simp_all add: restore_steps_def seq_def)
  from restore_content_backups [of "staged_entries temp fs2" fs2] rc
  have b3: "backups fs3 = backups fs2" by simp
  from s st b r1 sn r2 rc r3
  have "fs' = snd (restore_config cfg (staged_entries temp fs3) fs3)"
    by (simp add: restore_steps_def seq_def)
  with restore_config_backups [of cfg "staged_entries temp fs3" fs3] b3 fs2
  have "backups fs' = Some (put_entry ?snap (Dir es) b1)" by simp
  with st r1 l show ?thesis by simp
qed

lemma restore_True_cases:
  assumes "restore_backup srt cfg env backup_name fs = (Inr True, fs')"
  shows "\<exists>bs info bdir1 fs2.
           list_backups srt fs = Inr bs \<and> find (\<lambda>b. bname b = backup_name) bs = Some info
         \<and> py_lower (r_confirm env) = ''y''
         \<and> makedirs_exist_ok (temp_name env) (case backups fs of Some b \<Rightarrow> b | None \<Rightarrow> []) = (None, bdir1)
         \<and> restore_steps cfg env info (temp_name env) (fs\<lparr> backups := Some bdir1 \<rparr>) = (None, fs2)
         \<and> remove_temp (temp_name env) fs2 = (None, fs')"
  using assms
  by (auto simp: restore_backup_def Let_def
        split: sum.splits option.splits if_splits prod.splits)

lemma remove_temp_result:
  assumes "remove_temp temp fs2 = (None, fs')" and "backups fs2 = Some bdir2"
  shows "backups fs' = Some (filter (\<lambda>e. fst e \<noteq> temp) bdir2)"
proof (cases "lookup bdir2 temp")
  case None
  then have "temp \<notin> fst ` set bdir2" by (simp add: lookup_None_iff)
  then have "filter (\<lambda>e. fst e \<noteq> temp) bdir2 = bdir2" by (auto simp: filter_id_conv)
  with assms None show ?thesis by (simp add: remove_temp_def)
next
  case (Some x)
  with assms show ?thesis
    by (cases x) (auto simp: remove_temp_def remove_entry_filter)
qed

lemma snapshot_listed_iff:
  assumes nin: "snap \<notin> fst ` set b1" and ne: "snap \<noteq> t" and nz: "\<not> endswith snap ''.zip''"
  shows "lookup (filter (\<lambda>e. fst e \<noteq> t) (b1 @ [(snap, Dir es)])) snap = Some (Dir es)"
    and "(\<exists>b \<in> set (scan_backups (filter (\<lambda>e. fst e \<noteq> t) (b1 @ [(snap, Dir es)]))). bpath b = snap)
          \<longleftrightarrow> (\<exists>n j. lookup es ''metadata.json'' = Some (File (JsonFile n j)))"
proof -
  let ?B = "filter (\<lambda>e. fst e \<noteq> t) (b1 @ [(snap, Dir es)])"
  have "lookup ?B snap = lookup (b1 @ [(snap, Dir es)]) snap"
    using lookup_filter_names [of "{t}" "b1 @ [(snap, Dir es)]" snap] ne by simp
  also have "\<dots> = Some (Dir es)"
    using nin by (simp add: lookup_map_of map_of_append map_add_def map_of_eq_None_iff [THEN iffD2])
  finally show "lookup ?B snap = Some (Dir es)" .
  have only: "it = (snap, Dir es)" if "it \<in> set ?B" "fst it = snap" for it
  proof -
    from that(1) have "it \<in> set (b1 @ [(snap, Dir es)])" by (simp only: set_filter) simp
    then have "it \<in> set b1 \<or> it = (snap, Dir es)" by auto
    with that(2) nin show ?thesis by auto
  qed
  have mem: "(snap, Dir es) \<in> set ?B" using ne by simp
  have nz': "\<not> endswith (fst (snap, Dir es)) ''.zip''" using nz by simp
  show "(\<exists>b \<in> set (scan_backups ?B). bpath b = snap)
          \<longleftrightarrow> (\<exists>n j. lookup es ''metadata.json'' = Some (File (JsonFile n j)))"
  proof
    assume "\<exists>b \<in> set (scan_backups ?B). bpath b = snap"
    then obtain b where "b \<in> set (scan_backups ?B)" and b3: "bpath b = snap" by blast
    then obtain it where b: "it \<in> set ?B" "b \<in> set (scan_item ?B it)"
      unfolding scan_backups_elem by blast
    from scan_item_cases(1) [OF b(2)] b3 have "fst it = snap" by simp
    from only [OF b(1) this] b(2) have "b \<in> set (scan_item ?B (snap, Dir es))" by simp
    then show "\<exists>n j. lookup es ''metadata.json'' = Some (File (JsonFile n j))"
      unfolding scan_item_other_elem [OF nz'] by auto
  next
    assume "\<exists>n j. lookup es ''metadata.json'' = Some (File (JsonFile n j))"
    then obtain n j where "lookup es ''metadata.json'' = Some (File (JsonFile n j))" by blast
    then have "\<lparr> bname = snap, btype = directory, bpath = snap, bmetadata = j \<rparr>
               \<in> set (scan_item ?B (snap, Dir es))"
      unfolding scan_item_other_elem [OF nz'] by simp
    with mem have "\<lparr> bname = snap, btype = directory, bpath = snap, bmetadata = j \<rparr>
               \<in> set (scan_backups ?B)"
      unfolding scan_backups_elem by blast
    then show "\<exists>b \<in> set (scan_backups ?B). bpath b = snap" by force
  qed
qed

text \<open>
  C4 (as amended). A restore that returns \<open>True\<close> while the content directory exists leaves in
  the backup directory a plain copy of the content tree as it was, under the name
  \<^verbatim>\<open>pre_restore_\<close> followed by the backup name of that second. No metadata is written for
  it: the listing has an element for it exactly when the content tree itself had a readable
  file \<^verbatim>\<open>metadata.json\<close> at its top.
\<close>

theorem restore_snapshot_plain_copy:
  assumes r: "restore_backup srt cfg env backup_name fs = (Inr True, fs')"
    and c: "content fs = Some (Dir es)"
  shows "\<exists>bdir'. backups fs' = Some bdir'
         \<and> lookup bdir' (''pre_restore_'' @ get_backup_filename (r_now env)) = Some (Dir es)
         \<and> ((\<exists>b \<in> set (scan_backups bdir').
                 bpath b = ''pre_restore_'' @ get_backup_filename (r_now env))
              \<longleftrightarrow> (\<exists>n j. lookup es ''metadata.json'' = Some (File (JsonFile n j))))"
proof -
  define snap where "snap = ''pre_restore_'' @ get_backup_filename (r_now env)"
  define t where "t = temp_name env"
  from restore_True_cases [OF r] obtain info bdir1 fs2 where
    s: "restore_steps cfg env info t (fs\<lparr> backups := Some bdir1 \<rparr>) = (None, fs2)"
    and rt: "remove_temp t fs2 = (None, fs')" unfolding t_def by blast
  have "backups (fs\<lparr> backups := Some bdir1 \<rparr>) = Some bdir1"
    "content (fs\<lparr> backups := Some bdir1 \<rparr>) = Some (Dir es)" using c by simp_all
  from restore_steps_ok [OF s this] obtain b1 where
    l: "lookup b1 snap = None" and b2: "backups fs2 = Some (put_entry snap (Dir es) b1)"
    unfolding snap_def by blast
  from remove_temp_result [OF rt b2] l
  have B: "backups fs' = Some (filter (\<lambda>e. fst e \<noteq> t) (b1 @ [(snap, Dir es)]))"
    by (simp only: put_entry_new)
  have ne: "snap \<noteq> t" unfolding snap_def t_def using temp_not_snapshot [of env] by metis
  have nin: "snap \<notin> fst ` set b1" using l by (simp add: lookup_None_iff)
  have nz: "\<not> endswith snap ''.zip''" unfolding snap_def by (rule snapshot_name_not_zip)
  from B snapshot_listed_iff [OF nin ne nz, of es] show ?thesis
    unfolding snap_def [symmetric] by blast
qed

theorem restore_snapshot_plain_copy_witness:
  "restore_backup ex_sort ex_cfg ok_renv ''a'' ex_fs
     = (Inr True, ex_fs\<lparr> backups := Some (ex_backups @
        [(''pre_restore_backup_20240101_000001'', Dir [(''ch1.md'', File (Blob ''hello''))])]) \<rparr>)
   \<and> content ex_fs = Some (Dir [(''ch1.md'', File (Blob ''hello''))])
   \<and> ''pre_restore_'' @ get_backup_filename (r_now ok_renv) = ''pre_restore_backup_20240101_000001''
   \<and> (\<exists>bdir'. backups (ex_fs\<lparr> backups := Some (ex_backups @
        [(''pre_restore_backup_20240101_000001'', Dir [(''ch1.md'', File (Blob ''hello''))])]) \<rparr>)
          = Some bdir'
        \<and> lookup bdir' ''pre_restore_backup_20240101_000001''
            = Some (Dir [(''ch1.md'', File (Blob ''hello''))])
        \<and> \<not> (\<exists>b \<in> set (scan_backups bdir'). bpath b = ''pre_restore_backup_20240101_000001''))"
proof -
  have c: "content ex_fs = Some (Dir [(''ch1.md'', File (Blob ''hello''))])" by (simp add: ex_fs_def)
  have n: "''pre_restore_'' @ get_backup_filename (r_now ok_renv) = ''pre_restore_backup_20240101_000001''"
    by (simp add: get_backup_filename_def strftime_def pad2_def pad4_def digit_def ok_renv_def)
  have m: "\<not> (\<exists>n j. lookup [(''ch1.md'', File (Blob ''hello''))] ''metadata.json''
                = Some (File (JsonFile n j)))" by simp
  from restore_snapshot_plain_copy [OF ok_restore c] m ok_restore c n
  show ?thesis by (simp only: n) blast
qed

text \<open>
  C4 (counterexample). A confirmed restore of backup \<^verbatim>\<open>a\<close> while the content directory
  exists returns \<open>True\<close> and leaves the snapshot directory in the backup directory, and the
  listing after it has the three elements it had before, none of them the snapshot.
\<close>

theorem restore_snapshot_not_listed:
  "content ex_fs \<noteq> None
   \<and> fst (restore_backup ex_sort ex_cfg ok_renv ''a'' ex_fs) = Inr True
   \<and> is_dir (lookup (the (backups (snd (restore_backup ex_sort ex_cfg ok_renv ''a'' ex_fs))))
               ''pre_restore_backup_20240101_000001'')
   \<and> map bpath (projr (list_backups ex_sort (snd (restore_backup ex_sort ex_cfg ok_renv ''a'' ex_fs))))
       = [''b'', ''c.zip'', ''a.zip'']"
proof -
  have "list_backups ex_sort (ex_fs\<lparr> backups := Some (ex_backups @
        [(''pre_restore_backup_20240101_000001'', Dir [(''ch1.md'', File (Blob ''hello''))])]) \<rparr>)
      = Inr [\<lparr>bname = ''b'', btype = directory, bpath = ''b'', bmetadata = ex_meta ''b'' 3\<rparr>,
      \<lparr>bname = ''c'', btype = compressed, bpath = ''c.zip'', bmetadata = ex_meta ''c'' 2\<rparr>,
      \<lparr>bname = ''a'', btype = compressed, bpath = ''a.zip'', bmetadata = ex_meta ''a'' 1\<rparr>]"
    by (simp add: list_backups_def scan_backups_def scan_item_def endswith_def drop_last4_def
          ex_backups_def Let_def)
       (simp add: ex_sort_def sort_reverse_def timestamp_of_def ex_meta_def dump_metadata_def)
  then show ?thesis
    by (simp add: ok_restore) (simp add: ex_fs_def ex_backups_def)
qed

end
